(* ===== verification/Prelude.thy ===== *)
theory Prelude
  imports Main "HOL-Library.Multiset" "HOL-Library.Sublist"
begin

text \<open>
  Shared vocabulary of the development: the JavaScript error values that the
  modelled code can raise, the ECMAScript string built-ins it calls
  (\<open>toLowerCase\<close>, \<open>trim\<close>, \<open>split(/\s+/)\<close>, \<open>includes\<close>, \<open>join\<close>), and
  the generic list lemmas the component theories share.  JavaScript strings are
  modelled as \<open>string\<close>: a character is a UTF-16 code unit of the Latin-1 range
  U+0000--U+00FF, and the case mapping and the white-space class are the
  ECMAScript definitions restricted to that range.
\<close>

named_theorems js_string_simps "evaluation rules of the modelled string built-ins"

datatype js_error = TypeError

type_synonym 'a js_result = "js_error + 'a"

subsection \<open>Characters\<close>

text \<open>The upper-case letters of Latin-1 with a one-character lower case: A--Z
  and U+00C0--U+00DE except the multiplication sign U+00D7.\<close>

definition is_upper :: "char \<Rightarrow> bool" where
  "is_upper c \<longleftrightarrow> (65 \<le> (of_char c :: nat) \<and> (of_char c :: nat) \<le> 90) \<or>
     (192 \<le> (of_char c :: nat) \<and> (of_char c :: nat) \<le> 222 \<and> (of_char c :: nat) \<noteq> 215)"

definition lower_char :: "char \<Rightarrow> char" where
  "lower_char c = (if is_upper c then char_of (of_char c + (32::nat)) else c)"

text \<open>\<open>String.prototype.toLowerCase\<close>.\<close>

definition js_lower :: "string \<Rightarrow> string" where
  "js_lower s = map lower_char s"

text \<open>The class \<open>\s\<close> of ECMAScript regular expressions (and of \<open>trim\<close>),
  WhiteSpace and LineTerminator, in Latin-1: tab, line feed, vertical tab, form
  feed, carriage return, space and the no-break space U+00A0 (U+0085 is not in
  it).\<close>

definition is_ws :: "char \<Rightarrow> bool" where
  "is_ws c \<longleftrightarrow> (of_char c :: nat) = 32 \<or> (9 \<le> (of_char c :: nat) \<and> (of_char c :: nat) \<le> 13) \<or>
     (of_char c :: nat) = 160"

subsection \<open>String built-ins\<close>

text \<open>\<open>String.prototype.trim\<close>.\<close>

definition js_trim :: "string \<Rightarrow> string" where
  "js_trim s = rev (dropWhile is_ws (rev (dropWhile is_ws s)))"

text \<open>\<open>s.split(/\s+/)\<close>: the pieces between maximal runs of white space; a
  leading or trailing run yields an empty first or last piece, and the empty
  string splits into one empty piece.  \<open>cur\<close> is the current piece, reversed.\<close>

function split_ws_aux :: "string \<Rightarrow> string \<Rightarrow> string list" where
  "split_ws_aux cur [] = [rev cur]"
| "split_ws_aux cur (c # cs) =
     (if is_ws c then rev cur # split_ws_aux [] (dropWhile is_ws cs)
      else split_ws_aux (c # cur) cs)"
  by pat_completeness auto
termination
  by (relation "measure (\<lambda>(cur, s). length s)")
     (auto simp: le_imp_less_Suc length_dropWhile_le)

definition split_ws :: "string \<Rightarrow> string list" where
  "split_ws s = split_ws_aux [] s"

text \<open>\<open>s.startsWith(t)\<close> and \<open>s.includes(t)\<close>.\<close>

fun js_starts_with :: "string \<Rightarrow> string \<Rightarrow> bool" where
  "js_starts_with s [] = True"
| "js_starts_with [] (_ # _) = False"
| "js_starts_with (c # s) (d # t) = (c = d \<and> js_starts_with s t)"

fun js_includes :: "string \<Rightarrow> string \<Rightarrow> bool" where
  "js_includes [] t = (t = [])"
| "js_includes (c # s) t = (js_starts_with (c # s) t \<or> js_includes s t)"

text \<open>\<open>Array.prototype.join(sep)\<close> on an array of strings.\<close>

fun js_join :: "string \<Rightarrow> string list \<Rightarrow> string" where
  "js_join sep [] = []"
| "js_join sep [x] = x"
| "js_join sep (x # y # xs) = x @ sep @ js_join sep (y # xs)"

text \<open>\<open>xs.map(f)\<close> where \<open>f\<close> may throw: the first exception, in index order,
  aborts the whole map.\<close>

fun map_js :: "('a \<Rightarrow> 'b js_result) \<Rightarrow> 'a list \<Rightarrow> 'b list js_result" where
  "map_js f [] = Inr []"
| "map_js f (x # xs) =
     (case f x of Inl e \<Rightarrow> Inl e
      | Inr y \<Rightarrow> (case map_js f xs of Inl e \<Rightarrow> Inl e | Inr ys \<Rightarrow> Inr (y # ys)))"

text \<open>The side condition under which \<open>split_ws_aux cur s\<close> yields no empty piece:
  the string does not end in white space, and the current piece is non-empty or the
  string starts with a character that is not white space.\<close>

definition ws_free_ends :: "string \<Rightarrow> string \<Rightarrow> bool" where
  "ws_free_ends cur s \<longleftrightarrow>
     (cur \<noteq> [] \<or> (s \<noteq> [] \<and> \<not> is_ws (hd s))) \<and> (s = [] \<or> \<not> is_ws (last s))"

subsection \<open>Lemmas on the built-ins\<close>

lemma starts_with_prefix [js_string_simps]: "js_starts_with s t \<longleftrightarrow> prefix t s"
  by (induction s t rule: js_starts_with.induct) auto

lemma includes_sublist [js_string_simps]: "js_includes s t \<longleftrightarrow> sublist t s"
  by (induction s) (auto simp: starts_with_prefix sublist_Cons_right)

lemma includes_Nil [simp]: "js_includes s []"
  by (simp add: includes_sublist)

lemma length_js_lower [simp]: "length (js_lower s) = length s"
  by (simp add: js_lower_def)

lemma js_lower_append [simp]: "js_lower (s @ t) = js_lower s @ js_lower t"
  by (simp add: js_lower_def)

lemma map_js_Inr_iff:
  "map_js f xs = Inr ys \<longleftrightarrow> (\<forall>x\<in>set xs. \<not> isl (f x)) \<and> ys = map (\<lambda>x. projr (f x)) xs"
  by (induction xs arbitrary: ys) (auto split: sum.splits, blast)

lemma map_js_Inl_iff:
  "(\<exists>e. map_js f xs = Inl e) \<longleftrightarrow> (\<exists>x\<in>set xs. \<exists>e. f x = Inl e)"
  by (induction xs) (auto split: sum.splits)

lemma map_js_map:
  "(\<And>x. x \<in> set xs \<Longrightarrow> f x = Inr (g x)) \<Longrightarrow> map_js f xs = Inr (map g xs)"
  by (induction xs) auto

lemma isl_map_js_set: "set xs = set ys \<Longrightarrow> isl (map_js f xs) = isl (map_js f ys)"
proof -
  assume "set xs = set ys"
  then have "(\<exists>e. map_js f xs = Inl e) \<longleftrightarrow> (\<exists>e. map_js f ys = Inl e)"
    by (simp add: map_js_Inl_iff)
  then show ?thesis by (metis isl_def sum.collapse(1))
qed

lemma map_js_mset:
  "mset xs = mset ys \<Longrightarrow> map_js f xs = Inr ps \<Longrightarrow> map_js f ys = Inr ps' \<Longrightarrow> mset ps = mset ps'"
  by (simp add: map_js_Inr_iff)

lemma is_ws_lower_char [simp]: "is_ws (lower_char c) \<longleftrightarrow> is_ws c"
  by (auto simp: is_ws_def lower_char_def is_upper_def)

lemma js_lower_Cons [simp]: "js_lower (c # s) = lower_char c # js_lower s"
  by (simp add: js_lower_def)

lemma js_lower_Nil [simp]: "js_lower [] = []"
  by (simp add: js_lower_def)

subsection \<open>Splitting on white space\<close>

text \<open>A leading white-space run gives an empty first piece.\<close>

lemma split_ws_leading_ws:
  "is_ws c \<Longrightarrow> split_ws (c # cs) = [] # split_ws (dropWhile is_ws cs)"
  by (simp add: split_ws_def)

lemma dropWhile_ws_free_ends:
  assumes "cs \<noteq> []" "\<not> is_ws (last cs)"
  shows "ws_free_ends [] (dropWhile is_ws cs)"
proof -
  have ne: "dropWhile is_ws cs \<noteq> []"
    using assms by (auto simp: dropWhile_eq_Nil_conv)
  then have "\<not> is_ws (hd (dropWhile is_ws cs))"
    using hd_dropWhile by blast
  moreover have "last (dropWhile is_ws cs) = last cs"
    using ne by (induction cs) (auto split: if_splits)
  ultimately show ?thesis
    using ne assms by (simp add: ws_free_ends_def)
qed

lemma split_ws_aux_no_empty:
  "ws_free_ends cur s \<Longrightarrow> [] \<notin> set (split_ws_aux cur s)"
proof (induction cur s rule: split_ws_aux.induct)
  case (1 cur)
  then show ?case by (simp add: ws_free_ends_def)
next
  case (2 cur c cs)
  show ?case
  proof (cases "is_ws c")
    case True
    with "2.prems" have "cur \<noteq> []" "cs \<noteq> []" "\<not> is_ws (last cs)"
      by (auto simp: ws_free_ends_def split: if_splits)
    with True "2.IH"(1) show ?thesis
      by (simp add: dropWhile_ws_free_ends)
  next
    case False
    with "2.prems" have "ws_free_ends (c # cur) cs"
      by (cases cs) (auto simp: ws_free_ends_def)
    with False "2.IH"(2) show ?thesis by simp
  qed
qed

lemma ws_free_ends_lower:
  "ws_free_ends [] s \<Longrightarrow> ws_free_ends [] (js_lower s)"
  by (cases s) (auto simp: ws_free_ends_def js_lower_def last_map)

lemma js_trim_ends:
  "js_trim s = [] \<or> (\<not> is_ws (hd (js_trim s)) \<and> \<not> is_ws (last (js_trim s)))"
proof (cases "js_trim s = []")
  case True
  then show ?thesis by simp
next
  case False
  let ?u = "dropWhile is_ws s"
  have "\<not> is_ws (last (js_trim s))"
    using False unfolding js_trim_def
    by (metis hd_dropWhile last_rev rev_is_Nil_conv)
  moreover have "?u \<noteq> []"
    using False by (auto simp: js_trim_def dest: set_dropWhileD)
  then obtain x xs where u: "?u = x # xs"
    by (cases ?u) auto
  have "\<not> is_ws x"
    using hd_dropWhile [of is_ws s] u by simp
  then have "hd (js_trim s) = x"
    by (simp add: js_trim_def u dropWhile_append)
  ultimately show ?thesis
    using \<open>\<not> is_ws x\<close> by simp
qed

text \<open>The input handler trims the query, so its terms are never empty.\<close>

lemma split_ws_trim_no_empty:
  "js_trim q \<noteq> [] \<Longrightarrow> [] \<notin> set (split_ws (js_lower (js_trim q)))"
proof -
  assume ne: "js_trim q \<noteq> []"
  then have "ws_free_ends [] (js_trim q)"
    using js_trim_ends [of q] by (cases "js_trim q") (auto simp: ws_free_ends_def)
  then have "ws_free_ends [] (js_lower (js_trim q))"
    by (rule ws_free_ends_lower)
  then show ?thesis
    unfolding split_ws_def by (rule split_ws_aux_no_empty)
qed

text \<open>A string without white space is one piece.\<close>

lemma split_ws_aux_no_ws:
  "\<forall>c\<in>set s. \<not> is_ws c \<Longrightarrow> split_ws_aux cur s = [rev cur @ s]"
  by (induction cur s rule: split_ws_aux.induct) auto

lemma split_ws_no_ws: "\<forall>c\<in>set s. \<not> is_ws c \<Longrightarrow> split_ws s = [s]"
  by (simp add: split_ws_def split_ws_aux_no_ws)

text \<open>Two words with one white-space character between them are two pieces.\<close>

lemma split_ws_aux_sep:
  assumes "\<forall>x\<in>set a. \<not> is_ws x" and "is_ws c" and "\<forall>x\<in>set b. \<not> is_ws x"
  shows "split_ws_aux cur (a @ c # b) = [rev cur @ a, b]"
  using assms(1)
proof (induction a arbitrary: cur)
  case Nil
  have "dropWhile is_ws b = b"
    using assms(3) by (cases b) auto
  then show ?case
    using assms(2,3) by (simp add: split_ws_aux_no_ws)
next
  case (Cons x a)
  then show ?case by simp
qed

lemma split_ws_two_words:
  "\<forall>x\<in>set a. \<not> is_ws x \<Longrightarrow> is_ws c \<Longrightarrow> \<forall>x\<in>set b. \<not> is_ws x \<Longrightarrow> split_ws (a @ c # b) = [a, b]"
  by (simp add: split_ws_def split_ws_aux_sep)

lemma sublist_concat_member: "x \<in> set xs \<Longrightarrow> sublist x (concat xs)"
proof -
  assume "x \<in> set xs"
  then obtain as bs where "xs = as @ x # bs"
    by (auto simp: in_set_conv_decomp)
  then show ?thesis by simp
qed

lemma map_of_update_existing:
  "k' \<noteq> k \<Longrightarrow> map_of (map (\<lambda>(a, b). if a = k then (a, v) else (a, b)) fs) k' = map_of fs k'"
  by (induction fs) auto

lemma map_of_update_same:
  "k \<in> fst ` set fs \<Longrightarrow> map_of (map (\<lambda>(a, b). if a = k then (a, v) else (a, b)) fs) k = Some v"
  by (induction fs) auto

lemma map_add_single_new:
  "map_of fs k = None \<Longrightarrow> ([k \<mapsto> v] ++ map_of fs) k' = (if k' = k then Some v else map_of fs k')"
  by (auto simp: map_add_def split: option.split)

lemma map_js_cong: "(\<And>x. x \<in> set xs \<Longrightarrow> f x = g x) \<Longrightarrow> map_js f xs = map_js g xs"
  by (induction xs) (auto split: sum.splits)

lemma map_js_comp: "map_js f (map h xs) = map_js (\<lambda>x. f (h x)) xs"
  by (induction xs) (auto split: sum.splits)

lemma map_js_map_sum: "map_js (\<lambda>x. map_sum id g (f x)) xs = map_sum id (map g) (map_js f xs)"
  by (induction xs) (auto split: sum.splits)

lemma insort_key_map:
  "\<forall>y\<in>set (x # ys). f (h y) = g y \<Longrightarrow> insort_key f (h x) (map h ys) = map h (insort_key g x ys)"
  by (induction ys) auto

lemma sort_key_map:
  "\<forall>x\<in>set xs. f (h x) = g x \<Longrightarrow> sort_key f (map h xs) = map h (sort_key g xs)"
  by (induction xs) (simp_all add: insort_key_map)

lemma js_error_unique: "(e :: js_error) = TypeError"
  by (cases e) simp

lemma isl_ex_Inl: "isl s \<longleftrightarrow> (\<exists>e. s = Inl e)"
  by (cases s) auto

lemma json_result_isl: "isl (r :: 'a js_result) \<longleftrightarrow> r = Inl TypeError"
  by (cases r) (auto intro: js_error_unique)

lemma sort_key_Nil_iff [simp]: "sort_key f xs = [] \<longleftrightarrow> xs = []"
  by (metis length_0_conv length_sort)

lemma sum_list_pos_ex: "0 < sum_list (map f xs) \<Longrightarrow> \<exists>x\<in>set xs. 0 < (f x :: nat)"
  by (induction xs) auto

end
