(* ===== verification/Document.thy ===== *)
theory Document
  imports Prelude
begin

text \<open>
  The loading of a page as both scripts see it, and the idiom they share for
  running once the document is parsed (\<open>src/assets/js/search.js\<close> lines
  132--136, \<open>src/assets/js/code-copy.js\<close> lines 48--52):
  \<open>if (document.readyState === 'loading') document.addEventListener('DOMContentLoaded', f) else f()\<close>.
  The document is generic in its content \<open>'d\<close>; the parser adds one element at a
  time with a function \<open>'e \<Rightarrow> 'd \<Rightarrow> 'd\<close> that the client supplies.  The host
  side follows the HTML standard in the parts the scripts observe: elements are
  parsed while \<open>readyState\<close> is \<open>loading\<close>; the end of parsing makes it
  \<open>interactive\<close>; \<open>DOMContentLoaded\<close> then fires once and runs its listeners in
  registration order; the window's \<open>load\<close> makes it \<open>complete\<close>.  A script runs
  at any point of this sequence (inline, deferred, or injected late).
\<close>

datatype ready_state = Loading | Interactive | Complete

record 'd document =
  ready :: ready_state
  dom :: 'd
  on_ready :: "('d \<Rightarrow> 'd) list"
  dcl_fired :: bool

text \<open>The readiness check of both scripts: register \<open>f\<close> for \<open>DOMContentLoaded\<close>
  while the document is loading, run it at once otherwise.\<close>

definition when_ready :: "('d \<Rightarrow> 'd) \<Rightarrow> 'd document \<Rightarrow> 'd document" where
  "when_ready f doc =
     (if ready doc = Loading then doc\<lparr>on_ready := on_ready doc @ [f]\<rparr>
      else doc\<lparr>dom := f (dom doc)\<rparr>)"

datatype 'e doc_event = ParseElem 'e | EndParse | ContentLoaded | WindowLoad

text \<open>The host's steps of a page load.\<close>

fun doc_step :: "('e \<Rightarrow> 'd \<Rightarrow> 'd) \<Rightarrow> 'e doc_event \<Rightarrow> 'd document \<Rightarrow> 'd document" where
  "doc_step p (ParseElem e) doc = (if ready doc = Loading then doc\<lparr>dom := p e (dom doc)\<rparr> else doc)"
| "doc_step p EndParse doc = (if ready doc = Loading then doc\<lparr>ready := Interactive\<rparr> else doc)"
| "doc_step p ContentLoaded doc =
     (if ready doc = Interactive \<and> \<not> dcl_fired doc
      then doc\<lparr>dom := fold (\<lambda>f d. f d) (on_ready doc) (dom doc), dcl_fired := True\<rparr>
      else doc)"
| "doc_step p WindowLoad doc = (if dcl_fired doc then doc\<lparr>ready := Complete\<rparr> else doc)"

definition doc_steps :: "('e \<Rightarrow> 'd \<Rightarrow> 'd) \<Rightarrow> 'e doc_event list \<Rightarrow> 'd document \<Rightarrow> 'd document" where
  "doc_steps p es doc = fold (doc_step p) es doc"

text \<open>The whole load of a page whose body holds the elements \<open>xs\<close>, and the
  document before its first element is parsed.\<close>

definition page_load :: "'e list \<Rightarrow> 'e doc_event list" where
  "page_load xs = map ParseElem xs @ [EndParse, ContentLoaded, WindowLoad]"

definition loading_doc :: "'d \<Rightarrow> 'd document" where
  "loading_doc d = \<lparr>ready = Loading, dom = d, on_ready = [], dcl_fired = False\<rparr>"

text \<open>A script \<open>g\<close> executed after the first \<open>k\<close> steps of the load of \<open>xs\<close>.\<close>

definition load_with_script ::
  "('e \<Rightarrow> 'd \<Rightarrow> 'd) \<Rightarrow> ('d document \<Rightarrow> 'd document) \<Rightarrow> nat \<Rightarrow> 'e list \<Rightarrow> 'd \<Rightarrow> 'd document" where
  "load_with_script p g k xs d =
     doc_steps p (drop k (page_load xs)) (g (doc_steps p (take k (page_load xs)) (loading_doc d)))"

subsection \<open>Lemmas\<close>

lemma doc_steps_parse:
  "ready doc = Loading \<Longrightarrow>
   doc_steps p (map ParseElem xs) doc = doc\<lparr>dom := fold p xs (dom doc)\<rparr>"
  by (induction xs arbitrary: doc) (simp_all add: doc_steps_def)

lemma doc_steps_append [simp]: "doc_steps p (es @ es') doc = doc_steps p es' (doc_steps p es doc)"
  by (simp add: doc_steps_def)

lemma doc_steps_Cons [simp]: "doc_steps p (e # es) doc = doc_steps p es (doc_step p e doc)"
  by (simp add: doc_steps_def)

lemma doc_steps_Nil [simp]: "doc_steps p [] doc = doc"
  by (simp add: doc_steps_def)

text \<open>The readiness idiom makes a script independent of where the load reaches
  it: whatever \<open>k\<close>, the content ends as \<open>f\<close> of the fully parsed content.\<close>

lemma when_ready_any_point:
  "dom (load_with_script p (when_ready f) k xs d) = f (fold p xs d)"
proof (cases "k \<le> length xs")
  case True
  have tk: "take k (page_load xs) = map ParseElem (take k xs)"
    and dk: "drop k (page_load xs) = map ParseElem (drop k xs) @ [EndParse, ContentLoaded, WindowLoad]"
    using True by (simp_all add: page_load_def take_map drop_map)
  have "fold p (drop k xs) (fold p (take k xs) d) = fold p xs d"
    by (metis append_take_drop_id fold_append comp_apply)
  then show ?thesis
    by (simp add: load_with_script_def tk dk doc_steps_parse loading_doc_def when_ready_def)
next
  case False
  then obtain j where k: "k = length xs + Suc j"
    by (metis add_Suc_right less_imp_Suc_add not_le)
  have tk: "take k (page_load xs) = map ParseElem xs @ take (Suc j) [EndParse, ContentLoaded, WindowLoad]"
    and dk: "drop k (page_load xs) = drop (Suc j) [EndParse, ContentLoaded, WindowLoad]"
    by (simp_all add: page_load_def k)
  show ?thesis
    by (cases j) (simp_all add: load_with_script_def tk dk doc_steps_parse loading_doc_def
        when_ready_def numeral_2_eq_2 drop_Cons' take_Cons')
qed

end
