(* ===== verification/Index.thy ===== *)
theory Index
  imports Prelude
begin

text \<open>
  The index loader of \<open>src/assets/js/search.js\<close>: the shape of one entry of
  \<open>/search.json\<close> and \<open>loadSearchIndex\<close>.  Every field of a JSON object may be
  absent, so each is an option; the scorer raises a \<open>TypeError\<close> on a post
  without a title or a content.  The outcome of \<open>fetch\<close> plus \<open>response.json()\<close>
  is an input of the model: a network failure, a body that is not JSON, or a JSON
  array of posts.
\<close>

record post =
  title :: "string option"
  content :: "string option"
  tags :: "string list option"
  url :: "string option"
  date :: "string option"

datatype fetch_outcome = NetworkError | NotJson | Json "post list"

text \<open>\<open>loadSearchIndex\<close>: on success the module variable \<open>searchIndex\<close> is
  replaced by the parsed array; on failure the exception is caught, one line is
  written to the console and \<open>searchIndex\<close> keeps its value.\<close>

definition load_error_message :: string where
  "load_error_message = ''Failed to load search index:''"

fun loadSearchIndex :: "fetch_outcome \<Rightarrow> post list \<Rightarrow> post list \<times> string list" where
  "loadSearchIndex (Json ps) idx = (ps, [])"
| "loadSearchIndex NetworkError idx = (idx, [load_error_message])"
| "loadSearchIndex NotJson idx = (idx, [load_error_message])"

text \<open>A post the scorer can read without raising.\<close>

definition wf_post :: "'a post_scheme \<Rightarrow> bool" where
  "wf_post p \<longleftrightarrow> title p \<noteq> None \<and> content p \<noteq> None"

definition wf_index :: "'a post_scheme list \<Rightarrow> bool" where
  "wf_index ps \<longleftrightarrow> list_all wf_post ps"

end
