(* ===== verification/Scorer.thy ===== *)
theory Scorer
  imports Index
begin

text \<open>
  The query scorer, \<open>performSearch\<close> of \<open>src/assets/js/search.js\<close>: per post
  the term loop of the \<open>forEach\<close> (title +10, tags +5, content +1 per term), the
  spread \<open>{...post, score}\<close> as a record extension, the filter on a positive
  score, \<open>Array.prototype.sort\<close> with the comparator \<open>b.score - a.score\<close> (a
  stable sort since ECMAScript 2019, modelled by a stable insertion sort that takes
  the comparator as the code does) and \<open>slice(0, 20)\<close>.
\<close>

record scored = post + score :: nat

subsection \<open>Scoring one post\<close>

text \<open>The body of \<open>terms.forEach\<close>, one term at a time, the score as accumulator.\<close>

fun terms_score :: "string \<Rightarrow> string \<Rightarrow> string \<Rightarrow> string list \<Rightarrow> nat \<Rightarrow> nat" where
  "terms_score titleLower tagsLower contentLower [] s = s"
| "terms_score titleLower tagsLower contentLower (t # ts) s =
     terms_score titleLower tagsLower contentLower ts
       (s + (if js_includes titleLower t then 10 else 0)
          + (if js_includes tagsLower t then 5 else 0)
          + (if js_includes contentLower t then 1 else 0))"

text \<open>\<open>(post.tags || []).join(' ')\<close>: absent tags read as the empty array.\<close>

definition tags_text :: "'a post_scheme \<Rightarrow> string" where
  "tags_text p = js_join '' '' (case tags p of None \<Rightarrow> [] | Some g \<Rightarrow> g)"

text \<open>The callback of \<open>searchIndex.map\<close>: \<open>post.title.toLowerCase()\<close> and
  \<open>post.content.toLowerCase()\<close> throw on an absent field.\<close>

definition score_post :: "string list \<Rightarrow> post \<Rightarrow> scored js_result" where
  "score_post terms p =
     (case title p of None \<Rightarrow> Inl TypeError
      | Some t \<Rightarrow> (case content p of None \<Rightarrow> Inl TypeError
        | Some c \<Rightarrow>
          (let titleLower = js_lower t;
               contentLower = js_lower c;
               tagsLower = js_lower (tags_text p)
           in Inr \<lparr>title = title p, content = content p, tags = tags p, url = url p,
                   date = date p,
                   score = terms_score titleLower tagsLower contentLower terms 0\<rparr>)))"

subsection \<open>Sorting with a comparator\<close>

text \<open>\<open>Array.prototype.sort(cmp)\<close>: a stable sort in which \<open>x\<close> goes before
  \<open>y\<close> unless \<open>cmp x y > 0\<close>.\<close>

fun js_insert :: "('a \<Rightarrow> 'a \<Rightarrow> int) \<Rightarrow> 'a \<Rightarrow> 'a list \<Rightarrow> 'a list" where
  "js_insert cmp x [] = [x]"
| "js_insert cmp x (y # ys) = (if cmp x y \<le> 0 then x # y # ys else y # js_insert cmp x ys)"

fun js_sort :: "('a \<Rightarrow> 'a \<Rightarrow> int) \<Rightarrow> 'a list \<Rightarrow> 'a list" where
  "js_sort cmp [] = []"
| "js_sort cmp (x # xs) = js_insert cmp x (js_sort cmp xs)"

text \<open>The comparator \<open>(a, b) => b.score - a.score\<close>.\<close>

definition score_cmp :: "'a scored_scheme \<Rightarrow> 'a scored_scheme \<Rightarrow> int" where
  "score_cmp a b = int (score b) - int (score a)"

subsection \<open>performSearch\<close>

text \<open>The tail of the pipeline: \<open>.filter(post => post.score > 0)\<close>,
  \<open>.sort(...)\<close>, \<open>.slice(0, 20)\<close>.\<close>

definition max_results :: nat where
  "max_results = 20"

definition rank :: "scored list \<Rightarrow> scored list" where
  "rank ps = take max_results (js_sort score_cmp (filter (\<lambda>p. 0 < score p) ps))"

definition query_terms :: "string \<Rightarrow> string list" where
  "query_terms query = split_ws (js_lower query)"

definition performSearch :: "post list \<Rightarrow> string \<Rightarrow> scored list js_result" where
  "performSearch searchIndex query =
     (if query = [] \<or> length query < 2 then Inr []
      else (case map_js (score_post (query_terms query)) searchIndex of
              Inl e \<Rightarrow> Inl e
            | Inr ps \<Rightarrow> Inr (rank ps)))"

subsection \<open>Reference definitions\<close>

text \<open>What one term is worth for one post: the three independent containment
  checks of the loop body.  The score of a post is their sum over the terms.\<close>

definition term_points :: "string \<Rightarrow> string \<Rightarrow> string \<Rightarrow> string \<Rightarrow> nat" where
  "term_points titleLower tagsLower contentLower t =
     (if js_includes titleLower t then 10 else 0)
     + (if js_includes tagsLower t then 5 else 0)
     + (if js_includes contentLower t then 1 else 0)"

text \<open>The sort key that the comparator orders by: higher scores first.\<close>

definition score_key :: "'a scored_scheme \<Rightarrow> int" where
  "score_key r = - int (score r)"

text \<open>The example post of the specification, and its scored form for the
  query \<open>cache\<close>.\<close>

definition intro_post :: post where
  "intro_post = \<lparr>title = Some ''Intro to Caching'', content = Some ''A cache stores...'',
     tags = Some [''cache'', ''systems''], url = Some ''/p1'', date = Some ''2024-01-01''\<rparr>"

definition intro_result :: scored where
  "intro_result = \<lparr>title = Some ''Intro to Caching'', content = Some ''A cache stores...'',
     tags = Some [''cache'', ''systems''], url = Some ''/p1'', date = Some ''2024-01-01'',
     score = 6\<rparr>"

subsection \<open>The score as a sum over the terms\<close>

lemma terms_score_sum:
  "terms_score a b c ts s = s + sum_list (map (term_points a b c) ts)"
  by (induction ts arbitrary: s) (simp_all add: term_points_def)

lemma term_points_le: "term_points a b c t \<le> 16"
  by (simp add: term_points_def)

lemma sum_term_points_le: "sum_list (map (term_points a b c) ts) \<le> 16 * length ts"
proof (induction ts)
  case Nil
  then show ?case by simp
next
  case (Cons t ts)
  then show ?case using term_points_le [of a b c t] by simp
qed

subsection \<open>The sort\<close>

lemma js_insert_insort_key:
  assumes "\<And>a b. cmp a b \<le> 0 \<longleftrightarrow> f a \<le> f b"
  shows "js_insert cmp x xs = insort_key f x xs"
  by (induction xs) (simp_all add: assms)

lemma js_sort_sort_key:
  assumes "\<And>a b. cmp a b \<le> 0 \<longleftrightarrow> f a \<le> f b"
  shows "js_sort cmp xs = sort_key f xs"
  by (induction xs) (simp_all add: js_insert_insort_key [OF assms])

lemma score_cmp_key: "score_cmp a b \<le> 0 \<longleftrightarrow> score_key a \<le> score_key b"
  by (simp add: score_cmp_def score_key_def)

lemma js_sort_score_cmp: "js_sort score_cmp xs = sort_key score_key xs"
  by (rule js_sort_sort_key) (rule score_cmp_key)

lemma score_key_eq_iff [simp]: "score_key a = score_key b \<longleftrightarrow> score a = score b"
  by (simp add: score_key_def)

lemma sorted_score_key_iff:
  "sorted (map score_key xs) \<longleftrightarrow> sorted_wrt (\<lambda>a b. score b \<le> score a) xs"
  by (simp add: sorted_map score_key_def)

lemma mset_js_sort_score [simp]: "mset (js_sort score_cmp xs) = mset xs"
  by (simp add: js_sort_score_cmp)

lemma set_js_sort_score [simp]: "set (js_sort score_cmp xs) = set xs"
  by (simp add: js_sort_score_cmp)

lemmas rank_unfold = rank_def max_results_def js_sort_score_cmp

subsection \<open>Ranking\<close>

lemma length_rank: "length (rank ps) \<le> 20"
  by (simp add: rank_def max_results_def)

lemma rank_pos: "r \<in> set (rank ps) \<Longrightarrow> 0 < score r"
  by (auto simp: rank_unfold dest: in_set_takeD)

lemma set_rank: "set (rank ps) \<subseteq> set ps"
  by (auto simp: rank_unfold dest: in_set_takeD)

lemma rank_sorted: "sorted_wrt (\<lambda>a b. score b \<le> score a) (rank ps)"
proof -
  have "sorted (map score_key (sort_key score_key (filter (\<lambda>p. 0 < score p) ps)))"
    by (rule sorted_sort_key)
  then have "sorted_wrt (\<lambda>a b. score b \<le> score a) (sort_key score_key (filter (\<lambda>p. 0 < score p) ps))"
    by (simp only: sorted_score_key_iff)
  then show ?thesis
    by (simp add: rank_unfold sorted_wrt_take)
qed

lemma length_rank_eq: "length (rank ps) = min 20 (length (filter (\<lambda>p. 0 < score p) ps))"
  by (simp add: rank_unfold)

lemma rank_mem: "r \<in> set ps \<Longrightarrow> 0 < score r \<Longrightarrow> length (rank ps) < 20 \<Longrightarrow> r \<in> set (rank ps)"
  by (simp add: length_rank_eq) (simp add: rank_unfold)

subsection \<open>Scoring one post\<close>

lemma score_post_Inr_iff:
  "score_post ts p = Inr r \<longleftrightarrow>
     (\<exists>t c. title p = Some t \<and> content p = Some c \<and>
        r = \<lparr>title = title p, content = content p, tags = tags p, url = url p, date = date p,
              score = sum_list (map (term_points (js_lower t) (js_lower (tags_text p)) (js_lower c)) ts)\<rparr>)"
  by (auto simp: score_post_def terms_score_sum split: option.splits)

lemma score_post_isl_iff: "isl (score_post ts p) \<longleftrightarrow> \<not> wf_post p"
  by (auto simp: score_post_def wf_post_def split: option.splits)

lemma performSearch_long:
  "2 \<le> length q \<Longrightarrow> performSearch idx q =
     (case map_js (score_post (query_terms q)) idx of Inl e \<Rightarrow> Inl e | Inr ps \<Rightarrow> Inr (rank ps))"
  by (auto simp: performSearch_def)

lemma score_post_wf:
  "title p = Some t \<Longrightarrow> content p = Some c \<Longrightarrow> score_post ts p =
     Inr \<lparr>title = title p, content = content p, tags = tags p, url = url p, date = date p,
          score = sum_list (map (term_points (js_lower t) (js_lower (tags_text p)) (js_lower c)) ts)\<rparr>"
  by (simp add: score_post_def terms_score_sum)

lemma performSearch_Inr_rank:
  assumes "performSearch idx q = Inr rs" and "2 \<le> length q"
  shows "\<exists>ps. map_js (score_post (query_terms q)) idx = Inr ps \<and> rs = rank ps"
  using assms by (auto simp: performSearch_long split: sum.splits)

lemma performSearch_result_post:
  assumes "performSearch idx q = Inr rs" and "r \<in> set rs"
  shows "\<exists>p\<in>set idx. score_post (query_terms q) p = Inr r \<and> 0 < score r"
proof -
  have long: "2 \<le> length q"
    using assms by (cases "2 \<le> length q") (auto simp: performSearch_def)
  then obtain ps where ps: "map_js (score_post (query_terms q)) idx = Inr ps" and rs: "rs = rank ps"
    using assms(1) performSearch_Inr_rank by blast
  from ps have all: "\<forall>x\<in>set idx. \<not> isl (score_post (query_terms q) x)"
    and ps_eq: "ps = map (\<lambda>x. projr (score_post (query_terms q) x)) idx"
    by (simp_all add: map_js_Inr_iff)
  from assms(2) rs set_rank have "r \<in> set ps" by blast
  with ps_eq obtain p where p: "p \<in> set idx" and r: "r = projr (score_post (query_terms q) p)"
    by auto
  from p all have "score_post (query_terms q) p = Inr r"
    using r by (metis sum.collapse(2))
  moreover have "0 < score r"
    using assms(2) rs rank_pos by blast
  ultimately show ?thesis using p by blast
qed

lemma performSearch_wf: "performSearch idx q = Inr rs \<Longrightarrow> wf_index rs"
  unfolding wf_index_def list_all_iff
proof
  fix r assume "performSearch idx q = Inr rs" "r \<in> set rs"
  then obtain p where "score_post (query_terms q) p = Inr r"
    using performSearch_result_post by blast
  then show "wf_post r"
    by (auto simp: score_post_Inr_iff wf_post_def)
qed

lemma performSearch_total: "wf_index idx \<Longrightarrow> \<exists>rs. performSearch idx q = Inr rs"
proof -
  assume wf: "wf_index idx"
  have "\<forall>x\<in>set idx. \<not> isl (score_post (query_terms q) x)"
    using wf by (simp add: wf_index_def list_all_iff score_post_isl_iff)
  then have "\<not> (\<exists>e. map_js (score_post (query_terms q)) idx = Inl e)"
    by (auto simp: map_js_Inl_iff isl_def)
  then show ?thesis
    by (auto simp: performSearch_def split: sum.splits)
qed

lemma intro_post_cache: "performSearch [intro_post] ''cache'' = Inr [intro_result]"
  by code_simp

subsection \<open>Order independence\<close>

lemma map_score_key_sort_key: "map score_key (sort_key score_key xs) = sort (map score_key xs)"
  by (rule properties_for_sort [symmetric]) (simp_all add: sorted_sort_key)

lemma score_via_key: "score r = nat (- score_key r)"
  by (simp add: score_key_def)

lemma rank_scores_mset:
  assumes "mset ps = mset ps'"
  shows "map score (rank ps) = map score (rank ps')"
proof -
  let ?L = "filter (\<lambda>p. 0 < score p) ps" and ?L' = "filter (\<lambda>p. 0 < score p) ps'"
  have m: "mset (map score_key ?L) = mset (map score_key ?L')"
    using assms by simp
  have "sort (map score_key ?L) = sort (map score_key ?L')"
    by (rule properties_for_sort) (simp_all only: mset_sort m sorted_sort)
  then have "map score_key (sort_key score_key ?L) = map score_key (sort_key score_key ?L')"
    by (simp add: map_score_key_sort_key)
  then have "map (\<lambda>x. nat (- x)) (take 20 (map score_key (sort_key score_key ?L))) =
             map (\<lambda>x. nat (- x)) (take 20 (map score_key (sort_key score_key ?L')))"
    by simp
  then show ?thesis
    by (simp add: rank_unfold take_map comp_def score_via_key [symmetric])
qed

lemma rank_short_mset:
  assumes "mset ps = mset ps'" and "length (rank ps) < max_results"
  shows "mset (rank ps) = mset (rank ps')"
proof -
  let ?L = "filter (\<lambda>p. 0 < score p) ps" and ?L' = "filter (\<lambda>p. 0 < score p) ps'"
  have ml: "mset ?L = mset ?L'" using assms(1) by simp
  then have "length ?L = length ?L'" by (metis size_mset)
  moreover have "length ?L < 20"
    using assms(2) by (simp add: rank_unfold)
  ultimately have "rank ps = sort_key score_key ?L" "rank ps' = sort_key score_key ?L'"
    by (simp_all add: rank_unfold)
  then show ?thesis using ml by simp
qed

subsection \<open>Properties of performSearch\<close>

text \<open>C1. Every result list of \<open>performSearch\<close> has at most 20 entries, each
  with a positive score, in order of non-increasing score.\<close>

theorem performSearch_ranked:
  assumes "performSearch idx q = Inr rs"
  shows "length rs \<le> 20 \<and> (\<forall>r\<in>set rs. 0 < score r) \<and> sorted_wrt (\<lambda>a b. score b \<le> score a) rs"
proof (cases "2 \<le> length q")
  case False
  with assms show ?thesis by (simp add: performSearch_def)
next
  case True
  with assms obtain ps where "rs = rank ps"
    using performSearch_Inr_rank by blast
  then show ?thesis
    using length_rank rank_pos rank_sorted by blast
qed

theorem performSearch_ranked_witness:
  "performSearch [intro_post] ''cache'' = Inr [intro_result] \<and> 0 < score intro_result"
  using performSearch_ranked [OF intro_post_cache] intro_post_cache by simp

text \<open>C2. The sort is stable: among results of equal score the order of the
  index is kept.\<close>

theorem js_sort_stable:
  "filter (\<lambda>r. score r = k) (js_sort score_cmp xs) = filter (\<lambda>r. score r = k) xs"
proof -
  have eq: "(\<lambda>r. score r = k) = (\<lambda>r. score_key r = - int k)"
    by (auto simp: score_key_def)
  show ?thesis
    unfolding eq js_sort_sort_key [OF score_cmp_key] by (rule sort_key_stable)
qed

text \<open>C3. Any result that meets the contract of a stable \<open>Array.prototype.sort\<close>
  with the comparator \<open>b.score - a.score\<close> (a permutation, non-increasing in
  score, each score class in input order) is the one the model computes: the
  model does not depend on which stable sort the engine uses.\<close>

theorem js_sort_contract:
  assumes "mset ys = mset xs"
    and "\<forall>k. filter (\<lambda>r. score r = k) ys = filter (\<lambda>r. score r = k) xs"
    and "sorted_wrt (\<lambda>a b. score b \<le> score a) ys"
  shows "js_sort score_cmp xs = ys"
  unfolding js_sort_score_cmp
proof (rule properties_for_sort_key)
  show "mset ys = mset xs" by (rule assms(1))
next
  fix k assume "k \<in> set ys"
  have eq: "(\<lambda>x. score_key k = score_key x) = (\<lambda>x. score x = score k)"
    by (auto simp: score_key_def)
  show "filter (\<lambda>x. score_key k = score_key x) ys = filter (\<lambda>x. score_key k = score_key x) xs"
    unfolding eq using assms(2) by blast
next
  show "sorted (map score_key ys)"
    using assms(3) by (simp only: sorted_score_key_iff)
qed

theorem js_sort_contract_witness:
  "js_sort score_cmp [intro_result, intro_result\<lparr>score := 7\<rparr>]
     = [intro_result\<lparr>score := 7\<rparr>, intro_result]"
proof -
  let ?a = intro_result and ?b = "intro_result\<lparr>score := 7\<rparr>"
  have "mset [?b, ?a] = mset [?a, ?b]" by (simp add: add_mset_commute)
  moreover have "\<forall>k. filter (\<lambda>r. score r = k) [?b, ?a] = filter (\<lambda>r. score r = k) [?a, ?b]"
    by (simp add: intro_result_def)
  moreover have "sorted_wrt (\<lambda>a b. score b \<le> score a) [?b, ?a]"
    by (simp add: intro_result_def)
  ultimately show ?thesis by (rule js_sort_contract)
qed

text \<open>C4. A query of fewer than two characters yields no results, whatever the
  index (no scan, so no exception either).\<close>

theorem performSearch_short:
  "length q < 2 \<Longrightarrow> performSearch idx q = Inr []"
  by (simp add: performSearch_def)

theorem performSearch_short_witness:
  "length ''a'' < 2 \<and> performSearch [intro_post\<lparr>title := None\<rparr>] ''a'' = Inr []"
  using performSearch_short [of "''a''" "[intro_post\<lparr>title := None\<rparr>]"] by simp

text \<open>C5. Each result is a post of the index with its fields unchanged, and its
  score is the sum over the query's terms of the points of that term:
  10 for the lower-cased title, 5 for the joined tags, 1 for the content.\<close>

theorem performSearch_result_scores:
  assumes "performSearch idx q = Inr rs" and "r \<in> set rs"
  shows "\<exists>p\<in>set idx. \<exists>t c. title p = Some t \<and> content p = Some c \<and>
     title r = title p \<and> content r = content p \<and> tags r = tags p \<and> url r = url p \<and>
     date r = date p \<and>
     score r = sum_list (map (term_points (js_lower t) (js_lower (tags_text p)) (js_lower c))
                          (query_terms q))"
proof -
  obtain p where "p \<in> set idx" and "score_post (query_terms q) p = Inr r"
    using performSearch_result_post [OF assms] by blast
  then show ?thesis
    unfolding score_post_Inr_iff by fastforce
qed

theorem performSearch_result_scores_witness:
  "url intro_result = Some ''/p1'' \<and> (\<exists>p\<in>set [intro_post]. url p = Some ''/p1'')"
proof -
  have "\<exists>p\<in>set [intro_post]. url intro_result = url p"
    using performSearch_result_scores [OF intro_post_cache, of intro_result] by auto
  then show ?thesis by (simp add: intro_result_def)
qed

text \<open>C6. A term repeated in the query is scored once per occurrence: scoring the
  term list twice over doubles the score of every post and changes nothing else.\<close>

theorem score_post_repeated_terms:
  "score_post (ts @ ts) p = map_sum id (\<lambda>r. r\<lparr>score := 2 * score r\<rparr>) (score_post ts p)"
  by (simp add: score_post_def terms_score_sum Let_def split: option.splits)

text \<open>C7. \<open>performSearch\<close> throws exactly when the query has at least two
  characters and some post of the index lacks a title or a content.\<close>

theorem performSearch_error_iff:
  "(\<exists>e. performSearch idx q = Inl e) \<longleftrightarrow> 2 \<le> length q \<and> \<not> wf_index idx"
proof (cases "2 \<le> length q")
  case False
  then show ?thesis by (simp add: performSearch_def)
next
  case True
  have "(\<exists>e. performSearch idx q = Inl e) \<longleftrightarrow> (\<exists>e. map_js (score_post (query_terms q)) idx = Inl e)"
    using True by (auto simp: performSearch_long split: sum.splits)
  also have "\<dots> \<longleftrightarrow> (\<exists>x\<in>set idx. isl (score_post (query_terms q) x))"
    by (simp add: map_js_Inl_iff isl_def)
  also have "\<dots> \<longleftrightarrow> \<not> wf_index idx"
    by (simp add: score_post_isl_iff wf_index_def list_all_iff)
  finally show ?thesis using True by simp
qed

theorem performSearch_error_iff_witness:
  "performSearch [intro_post\<lparr>content := None\<rparr>] ''cache'' = Inl TypeError
   \<and> \<not> wf_index [intro_post\<lparr>content := None\<rparr>]"
proof -
  have "\<not> wf_index [intro_post\<lparr>content := None\<rparr>]"
    by (simp add: wf_index_def wf_post_def)
  then have "\<exists>e. performSearch [intro_post\<lparr>content := None\<rparr>] ''cache'' = Inl e"
    using performSearch_error_iff [of "[intro_post\<lparr>content := None\<rparr>]" "''cache''"] by simp
  then show ?thesis
    using js_error.exhaust \<open>\<not> wf_index _\<close> by (metis (full_types))
qed

text \<open>C9. The search does not see the case of the query: two queries with the
  same \<open>toLowerCase\<close> give the same outcome, results or \<open>TypeError\<close>, on every
  index (the query is lower-cased before it is split, and on Latin-1 lower-casing
  keeps its length, so the length guard agrees too).\<close>

theorem performSearch_case_insensitive:
  assumes "js_lower q1 = js_lower q2"
  shows "performSearch idx q1 = performSearch idx q2"
proof -
  have "length q1 = length q2"
    using arg_cong [OF assms, of length] by simp
  moreover have "query_terms q1 = query_terms q2"
    using assms by (simp add: query_terms_def)
  moreover have "q1 = [] \<longleftrightarrow> q2 = []"
    using \<open>length q1 = length q2\<close> by (metis length_0_conv)
  ultimately show ?thesis
    by (simp add: performSearch_def)
qed

theorem performSearch_case_insensitive_witness:
  "js_lower ''CaChE'' = js_lower ''cache'' \<and>
   performSearch [intro_post] ''CaChE'' = Inr [intro_result]"
proof -
  have l: "js_lower ''CaChE'' = js_lower ''cache''"
    by code_simp
  show ?thesis
    using performSearch_case_insensitive [OF l, of "[intro_post]"] l intro_post_cache by simp
qed

text \<open>C10. The search scheduled from the URL parameter \<open>q\<close> runs on the
  untrimmed value.  When it starts with white space, \<open>split(/\s+/)\<close> yields an
  empty first term, which every string includes: on a well-formed index every post
  scores at least 16 (10 + 5 + 1 for the empty term alone), so the filter drops
  nothing and the result is the first 20 of all the posts of the index in the
  stable descending order of their scores, whatever the rest of the query.\<close>

theorem performSearch_leading_ws:
  assumes "is_ws c" and "s \<noteq> []" and "wf_index idx"
  shows "\<exists>ps. map_js (score_post (query_terms (c # s))) idx = Inr ps \<and> length ps = length idx \<and>
           (\<forall>r\<in>set ps. 16 \<le> score r) \<and>
           performSearch idx (c # s) = Inr (take 20 (js_sort score_cmp ps)) \<and>
           length (take 20 (js_sort score_cmp ps)) = min 20 (length idx)"
proof -
  let ?T = "query_terms (c # s)"
  let ?g = "\<lambda>p. projr (score_post ?T p)"
  have T: "?T = [] # split_ws (dropWhile is_ws (js_lower s))"
    using assms(1) by (simp add: query_terms_def split_ws_leading_ws)
  have ok: "score_post ?T p = Inr (?g p) \<and> 16 \<le> score (?g p)" if "p \<in> set idx" for p
  proof -
    from that assms(3) obtain t c' where tc: "title p = Some t" "content p = Some c'"
      by (auto simp: wf_index_def wf_post_def list_all_iff)
    then have sp: "score_post ?T p = Inr (?g p)"
      by (simp add: score_post_def)
    moreover have "16 \<le> score (?g p)"
      using sp tc by (simp add: score_post_wf T term_points_def)
    ultimately show ?thesis by simp
  qed
  then have mj: "map_js (score_post ?T) idx = Inr (map ?g idx)"
    by (simp add: map_js_map)
  have flt: "filter (\<lambda>p. 0 < score p) (map ?g idx) = map ?g idx"
    using ok by (fastforce simp: filter_id_conv)
  have "2 \<le> length (c # s)"
    using assms(2) by (cases s) auto
  then have "performSearch idx (c # s) = Inr (take 20 (js_sort score_cmp (map ?g idx)))"
    using mj flt by (simp add: performSearch_long rank_def max_results_def)
  moreover have "length (take 20 (js_sort score_cmp (map ?g idx))) = min 20 (length idx)"
    by (simp add: js_sort_score_cmp)
  ultimately show ?thesis
    using mj ok by auto
qed

theorem performSearch_leading_ws_witness:
  "length (projr (performSearch [intro_post, intro_post\<lparr>title := Some ''x''\<rparr>] '' zz'')) = 2"
proof -
  have "is_ws (CHR '' '')" by (simp add: is_ws_def)
  moreover have "wf_index [intro_post, intro_post\<lparr>title := Some ''x''\<rparr>]"
    by (simp add: wf_index_def wf_post_def intro_post_def)
  ultimately show ?thesis
    using performSearch_leading_ws [of "CHR '' ''" "''zz''"] by fastforce
qed

text \<open>C29. No qualifying post is dropped while there is room: when fewer than 20
  results are returned, every post of the index that scores positively for the
  query is among them.\<close>

theorem performSearch_complete:
  assumes "performSearch idx q = Inr rs" and "length rs < 20" and "2 \<le> length q"
    and "p \<in> set idx" and "score_post (query_terms q) p = Inr r" and "0 < score r"
  shows "r \<in> set rs"
proof -
  obtain ps where ps: "map_js (score_post (query_terms q)) idx = Inr ps" and rs: "rs = rank ps"
    using performSearch_Inr_rank [OF assms(1,3)] by blast
  have "ps = map (\<lambda>x. projr (score_post (query_terms q) x)) idx"
    using ps by (simp add: map_js_Inr_iff)
  then have "r \<in> set ps"
    using assms(4,5) by force
  then show ?thesis
    using rank_mem assms(2,6) rs by simp
qed

theorem performSearch_complete_witness:
  "intro_result \<in> set [intro_result]"
proof -
  have "length [intro_result] < 20" "2 \<le> length ''cache''" "intro_post \<in> set [intro_post]"
    by simp_all
  moreover have "score_post (query_terms ''cache'') intro_post = Inr intro_result"
    by code_simp
  moreover have "0 < score intro_result"
    by (simp add: intro_result_def)
  ultimately show ?thesis
    using performSearch_complete [OF intro_post_cache] by blast
qed

text \<open>C30. A score is at most 16 per query term: each term adds at most 10 + 5 + 1.\<close>

theorem score_post_bound:
  "score_post ts p = Inr r \<Longrightarrow> score r \<le> 16 * length ts"
  by (auto simp: score_post_Inr_iff sum_term_points_le)

theorem score_post_bound_witness:
  "score intro_result \<le> 16 * length [''cache'']"
proof -
  have "score_post [''cache''] intro_post = Inr intro_result"
    by code_simp
  then show ?thesis by (rule score_post_bound)
qed

text \<open>C37. Scoring is order-independent across posts: reordering the index
  changes neither whether the search throws nor the sequence of scores shown, and
  when fewer than 20 posts match, the same results are shown (in an order that
  may differ only among equal scores).\<close>

theorem performSearch_permute:
  assumes "mset xs = mset ys"
  shows "isl (performSearch xs q) = isl (performSearch ys q) \<and>
         (\<forall>rs rs'. performSearch xs q = Inr rs \<longrightarrow> performSearch ys q = Inr rs' \<longrightarrow>
            map score rs = map score rs' \<and> (length rs < max_results \<longrightarrow> mset rs = mset rs'))"
proof (cases "2 \<le> length q")
  case False
  then show ?thesis by (auto simp: performSearch_def)
next
  case True
  let ?f = "score_post (query_terms q)"
  have sets: "set xs = set ys" using assms by (metis set_mset_mset)
  have "isl (map_js ?f xs) = isl (map_js ?f ys)"
    using sets by (rule isl_map_js_set)
  then have "isl (performSearch xs q) = isl (performSearch ys q)"
    using True by (cases "map_js ?f xs"; cases "map_js ?f ys") (simp_all add: performSearch_long)
  moreover have "map score rs = map score rs' \<and> (length rs < max_results \<longrightarrow> mset rs = mset rs')"
    if rx: "performSearch xs q = Inr rs" and ry: "performSearch ys q = Inr rs'" for rs rs'
  proof -
    obtain ps where px: "map_js ?f xs = Inr ps" and r: "rs = rank ps"
      using performSearch_Inr_rank [OF rx True] by blast
    obtain ps' where py: "map_js ?f ys = Inr ps'" and r': "rs' = rank ps'"
      using performSearch_Inr_rank [OF ry True] by blast
    have m: "mset ps = mset ps'"
      by (rule map_js_mset [OF assms px py])
    show ?thesis
      using rank_scores_mset [OF m] rank_short_mset [OF m] by (simp add: r r')
  qed
  ultimately show ?thesis by blast
qed

theorem performSearch_permute_witness:
  "mset (projr (performSearch [intro_post, intro_post\<lparr>title := Some ''Cache basics''\<rparr>] ''cache'')) =
   mset (projr (performSearch [intro_post\<lparr>title := Some ''Cache basics''\<rparr>, intro_post] ''cache''))"
proof -
  let ?a = intro_post and ?b = "intro_post\<lparr>title := Some ''Cache basics''\<rparr>"
  have m: "mset [?a, ?b] = mset [?b, ?a]" by simp
  have rx: "performSearch [?a, ?b] ''cache'' = Inr (projr (performSearch [?a, ?b] ''cache''))"
    and ry: "performSearch [?b, ?a] ''cache'' = Inr (projr (performSearch [?b, ?a] ''cache''))"
    and l: "length (projr (performSearch [?a, ?b] ''cache'')) < max_results"
    by code_simp+
  have "\<forall>rs rs'. performSearch [?a, ?b] ''cache'' = Inr rs \<longrightarrow> performSearch [?b, ?a] ''cache'' = Inr rs' \<longrightarrow>
            map score rs = map score rs' \<and> (length rs < max_results \<longrightarrow> mset rs = mset rs')"
    using performSearch_permute [OF m, of "''cache''"] by blast
  then show ?thesis
    using rx ry l by blast
qed

end
