(* ===== verification/Json.thy ===== *)
theory Json
  imports Scorer
begin

text \<open>
  The JSON layer of the index (\<open>src/assets/js/search.js\<close> lines 8--51):
  \<open>searchIndex = await response.json()\<close> stores any JSON value, and
  \<open>performSearch\<close> then reads it with JavaScript's dynamic semantics: \<open>.map\<close>
  on a non-array, \<open>.toLowerCase()\<close> on a missing or non-string field and
  \<open>.join\<close> on truthy non-array tags raise a \<open>TypeError\<close>; tag values are
  converted by \<open>Array.prototype.join\<close>.  The record model of \<open>Index\<close> and
  \<open>Scorer\<close> is the abstraction of the well-typed entries (\<open>abs_post\<close>), and
  the refinement theorem below shows that on them the two agree, so the
  controller's model over records is exact for well-typed payloads.
\<close>

text \<open>A value of \<open>response.json()\<close>, after \<open>JSON.parse\<close>: an object is the
  list of its properties, one per key (\<open>JSON.parse\<close> keeps the last of duplicate
  keys, so the keys are distinct); numbers are integers.\<close>

datatype json = JNull | JBool bool | JNum int | JStr string | JArr "json list" | JObj "(string \<times> json) list"

subsection \<open>Conversions\<close>

text \<open>\<open>Number.prototype.toString()\<close> on integers.\<close>

fun nat_string :: "nat \<Rightarrow> string" where
  "nat_string n = (if n < 10 then [char_of (48 + n)] else nat_string (n div 10) @ [char_of (48 + n mod 10)])"

definition int_string :: "int \<Rightarrow> string" where
  "int_string i = (if i < 0 then CHR ''-'' # nat_string (nat (- i)) else nat_string (nat i))"

text \<open>\<open>ToString\<close> of a value, and \<open>Array.prototype.join(sep)\<close>, in which
  \<open>null\<close> elements become the empty string and an array's \<open>toString\<close> is
  \<open>join(',')\<close>.\<close>

fun json_to_string :: "json \<Rightarrow> string"
and json_join :: "string \<Rightarrow> json list \<Rightarrow> string"
and json_elem :: "json \<Rightarrow> string" where
  "json_to_string JNull = ''null''"
| "json_to_string (JBool b) = (if b then ''true'' else ''false'')"
| "json_to_string (JNum n) = int_string n"
| "json_to_string (JStr s) = s"
| "json_to_string (JArr xs) = json_join '','' xs"
| "json_to_string (JObj fs) = ''[object Object]''"
| "json_join sep [] = []"
| "json_join sep [x] = json_elem x"
| "json_join sep (x # y # xs) = json_elem x @ sep @ json_join sep (y # xs)"
| "json_elem JNull = []"
| "json_elem x = json_to_string x"

text \<open>Property access \<open>v.k\<close>; only objects carry the properties the script
  reads, and an absent one is \<open>undefined\<close> (\<open>None\<close>).\<close>

definition json_get :: "string \<Rightarrow> json \<Rightarrow> json option" where
  "json_get k j = (case j of JObj fs \<Rightarrow> map_of fs k | _ \<Rightarrow> None)"

text \<open>The truthiness that \<open>post.tags || []\<close> tests.\<close>

fun js_truthy :: "json option \<Rightarrow> bool" where
  "js_truthy None = False"
| "js_truthy (Some JNull) = False"
| "js_truthy (Some (JBool b)) = b"
| "js_truthy (Some (JNum n)) = (n \<noteq> 0)"
| "js_truthy (Some (JStr s)) = (s \<noteq> [])"
| "js_truthy (Some (JArr xs)) = True"
| "js_truthy (Some (JObj fs)) = True"

text \<open>A property on which \<open>.toLowerCase()\<close> succeeds: only strings have it.\<close>

fun json_str :: "json option \<Rightarrow> string option" where
  "json_str (Some (JStr s)) = Some s"
| "json_str _ = None"

subsection \<open>performSearch over JSON\<close>

text \<open>\<open>(post.tags || []).join(' ')\<close>: a falsy value reads as the empty array,
  a truthy value that is not an array has no \<open>join\<close>.\<close>

definition tags_json :: "json \<Rightarrow> string js_result" where
  "tags_json post =
     (let v = json_get ''tags'' post in
      if \<not> js_truthy v then Inr []
      else (case v of Some (JArr xs) \<Rightarrow> Inr (json_join '' '' xs) | _ \<Rightarrow> Inl TypeError))"

text \<open>\<open>{ ...post, score }\<close> on an object: the key keeps its place if present,
  otherwise it is appended.\<close>

definition set_field :: "string \<Rightarrow> json \<Rightarrow> json \<Rightarrow> json" where
  "set_field k v j =
     (case j of
        JObj fs \<Rightarrow> JObj (if k \<in> fst ` set fs then map (\<lambda>(k', v'). if k' = k then (k', v) else (k', v')) fs
                          else fs @ [(k, v)])
      | _ \<Rightarrow> JObj [(k, v)])"

text \<open>The callback of \<open>searchIndex.map\<close> on a JSON value.\<close>

definition score_json :: "string list \<Rightarrow> json \<Rightarrow> json js_result" where
  "score_json terms post =
     (case json_str (json_get ''title'' post) of None \<Rightarrow> Inl TypeError
      | Some t \<Rightarrow> (case json_str (json_get ''content'' post) of None \<Rightarrow> Inl TypeError
        | Some c \<Rightarrow> (case tags_json post of Inl e \<Rightarrow> Inl e
          | Inr tg \<Rightarrow>
              Inr (set_field ''score'' (JNum (int (terms_score (js_lower t) (js_lower tg) (js_lower c) terms 0)))
                     post))))"

text \<open>\<open>post.score\<close> as the comparator and the filter read it.\<close>

definition score_of :: "json \<Rightarrow> int" where
  "score_of j = (case json_get ''score'' j of Some (JNum n) \<Rightarrow> n | _ \<Rightarrow> 0)"

definition json_score_cmp :: "json \<Rightarrow> json \<Rightarrow> int" where
  "json_score_cmp a b = score_of b - score_of a"

definition rank_json :: "json list \<Rightarrow> json list" where
  "rank_json ps = take max_results (js_sort json_score_cmp (filter (\<lambda>p. 0 < score_of p) ps))"

text \<open>\<open>performSearch\<close> with the module variable holding any JSON value:
  \<open>searchIndex.map\<close> exists only on arrays.\<close>

definition performSearch_json :: "json \<Rightarrow> string \<Rightarrow> json list js_result" where
  "performSearch_json searchIndex query =
     (if query = [] \<or> length query < 2 then Inr []
      else (case searchIndex of
              JArr posts \<Rightarrow> (case map_js (score_json (query_terms query)) posts of
                               Inl e \<Rightarrow> Inl e
                             | Inr ps \<Rightarrow> Inr (rank_json ps))
            | _ \<Rightarrow> Inl TypeError))"



subsection \<open>Abstraction to the record model\<close>

text \<open>A well-typed entry of \<open>search.json\<close>: an object whose \<open>title\<close>,
  \<open>content\<close>, \<open>url\<close> and \<open>date\<close> are strings or absent and whose \<open>tags\<close>
  are absent or an array of strings.\<close>

fun is_jstr :: "json \<Rightarrow> bool" where
  "is_jstr (JStr s) = True"
| "is_jstr _ = False"

fun str_or_absent :: "json option \<Rightarrow> bool" where
  "str_or_absent None = True"
| "str_or_absent (Some v) = is_jstr v"

fun tags_ok :: "json option \<Rightarrow> bool" where
  "tags_ok None = True"
| "tags_ok (Some (JArr xs)) = list_all is_jstr xs"
| "tags_ok (Some _) = False"

fun is_jobj :: "json \<Rightarrow> bool" where
  "is_jobj (JObj fs) = True"
| "is_jobj _ = False"

definition wf_json_post :: "json \<Rightarrow> bool" where
  "wf_json_post j \<longleftrightarrow> is_jobj j \<and> str_or_absent (json_get ''title'' j) \<and>
     str_or_absent (json_get ''content'' j) \<and> str_or_absent (json_get ''url'' j) \<and>
     str_or_absent (json_get ''date'' j) \<and> tags_ok (json_get ''tags'' j)"

text \<open>The record of \<open>Index\<close> that a well-typed entry stands for.\<close>

definition abs_post :: "json \<Rightarrow> post" where
  "abs_post j =
     \<lparr>title = json_str (json_get ''title'' j), content = json_str (json_get ''content'' j),
      tags = (case json_get ''tags'' j of Some (JArr xs) \<Rightarrow> Some (map json_to_string xs) | _ \<Rightarrow> None),
      url = json_str (json_get ''url'' j), date = json_str (json_get ''date'' j)\<rparr>"

definition abs_scored :: "json \<Rightarrow> scored" where
  "abs_scored j = post.extend (abs_post j) \<lparr>score = nat (score_of j)\<rparr>"

text \<open>An entry the callback reads without raising.\<close>

definition json_post_ok :: "json \<Rightarrow> bool" where
  "json_post_ok j \<longleftrightarrow> json_str (json_get ''title'' j) \<noteq> None \<and> json_str (json_get ''content'' j) \<noteq> None \<and>
     (\<not> js_truthy (json_get ''tags'' j) \<or> (case json_get ''tags'' j of Some (JArr _) \<Rightarrow> True | _ \<Rightarrow> False))"


subsection \<open>Lemmas\<close>

lemma json_get_set_field:
  "is_jobj j \<Longrightarrow> json_get k' (set_field k v j) = (if k' = k then Some v else json_get k' j)"
  by (cases j) (auto simp: json_get_def set_field_def map_of_update_existing map_of_update_same
      map_add_single_new map_of_eq_None_iff)

lemma json_join_js_join: "json_join sep xs = js_join sep (map json_elem xs)"
  by (induction xs rule: induct_list012) simp_all

lemma json_elem_str: "is_jstr x \<Longrightarrow> json_elem x = json_to_string x"
  by (cases x) simp_all

lemma tags_json_wf:
  assumes "tags_ok (json_get ''tags'' j)"
  shows "tags_json j = Inr (tags_text (abs_post j))"
proof (cases "json_get ''tags'' j")
  case None
  then show ?thesis by (simp add: tags_json_def tags_text_def abs_post_def)
next
  case (Some v)
  then obtain xs where v: "v = JArr xs" and xs: "list_all is_jstr xs"
    using assms by (cases v) auto
  have e: "map json_elem xs = map json_to_string xs"
    using xs by (auto simp: list_all_iff json_elem_str)
  show ?thesis
    using Some v by (simp add: tags_json_def tags_text_def abs_post_def json_join_js_join e)
qed

lemma abs_post_set_score:
  "is_jobj j \<Longrightarrow> abs_post (set_field ''score'' v j) = abs_post j"
  by (simp add: abs_post_def json_get_set_field)

lemma score_of_set_score:
  "is_jobj j \<Longrightarrow> score_of (set_field ''score'' (JNum n) j) = n"
  by (simp add: score_of_def json_get_set_field)

lemma score_abs_scored [simp]: "score (abs_scored j) = nat (score_of j)"
  by (simp add: abs_scored_def post.extend_def)

lemma score_json_abs:
  assumes "wf_json_post j"
  shows "map_sum id abs_scored (score_json ts j) = score_post ts (abs_post j)"
proof -
  have o: "is_jobj j" and tg: "tags_json j = Inr (tags_text (abs_post j))"
    using assms tags_json_wf by (auto simp: wf_json_post_def)
  show ?thesis
  proof (cases "json_str (json_get ''title'' j)")
    case None
    then show ?thesis by (simp add: score_json_def score_post_def abs_post_def)
  next
    case (Some t)
    show ?thesis
    proof (cases "json_str (json_get ''content'' j)")
      case None
      then show ?thesis using Some by (simp add: score_json_def score_post_def abs_post_def)
    next
      case (Some c)
      with \<open>json_str (json_get ''title'' j) = Some t\<close> show ?thesis
        using o tg
        by (simp add: score_json_def score_post_def abs_scored_def abs_post_set_score score_of_set_score)
           (simp add: abs_post_def post.defs)
    qed
  qed
qed

lemma js_sort_json_score: "js_sort json_score_cmp xs = sort_key (\<lambda>j. - score_of j) xs"
  by (rule js_sort_sort_key) (auto simp: json_score_cmp_def)

lemma score_json_nonneg: "score_json ts j = Inr r \<Longrightarrow> 0 \<le> score_of r"
  by (cases j) (auto simp: score_json_def json_get_def score_of_set_score split: option.splits sum.splits)

lemma rank_json_abs:
  assumes "\<forall>p\<in>set ps. 0 \<le> score_of p"
  shows "map abs_scored (rank_json ps) = rank (map abs_scored ps)"
proof -
  let ?L = "filter (\<lambda>p. 0 < score_of p) ps"
  have f: "filter (\<lambda>p. 0 < score p) (map abs_scored ps) = map abs_scored ?L"
    by (simp add: filter_map comp_def)
  have "\<forall>x\<in>set ?L. score_key (abs_scored x) = - score_of x"
    using assms by (auto simp: score_key_def)
  then have "sort_key score_key (map abs_scored ?L) = map abs_scored (sort_key (\<lambda>j. - score_of j) ?L)"
    by (rule sort_key_map)
  then show ?thesis
    by (simp add: rank_json_def rank_unfold f js_sort_json_score take_map)
qed

lemma score_json_isl_iff: "isl (score_json ts j) \<longleftrightarrow> \<not> json_post_ok j"
  by (auto simp: score_json_def json_post_ok_def tags_json_def Let_def
      split: option.splits sum.splits json.splits)

text \<open>Refinement: on an index of well-typed entries, the JSON-level search and
  the record-level \<open>performSearch\<close> of \<open>Scorer\<close> agree, result by result under
  the abstraction, errors included; the properties of \<open>Scorer\<close> carry over to
  such indexes.\<close>

lemma performSearch_json_refines:
  assumes "list_all wf_json_post js"
  shows "map_sum id (map abs_scored) (performSearch_json (JArr js) q) = performSearch (map abs_post js) q"
proof (cases "q = [] \<or> length q < 2")
  case True
  then show ?thesis by (auto simp: performSearch_json_def performSearch_def)
next
  case False
  let ?ts = "query_terms q"
  have "map_js (score_post ?ts) (map abs_post js) = map_js (\<lambda>j. map_sum id abs_scored (score_json ?ts j)) js"
    unfolding map_js_comp using assms by (intro map_js_cong) (simp add: list_all_iff score_json_abs)
  also have "\<dots> = map_sum id (map abs_scored) (map_js (score_json ?ts) js)"
    by (rule map_js_map_sum)
  finally have m: "map_js (score_post ?ts) (map abs_post js) = map_sum id (map abs_scored) (map_js (score_json ?ts) js)" .
  show ?thesis
  proof (cases "map_js (score_json ?ts) js")
    case (Inl e)
    then show ?thesis using False m by (simp add: performSearch_json_def performSearch_def)
  next
    case (Inr ps)
    then have "\<forall>p\<in>set ps. 0 \<le> score_of p"
      by (auto simp: map_js_Inr_iff score_json_nonneg)
    then show ?thesis using False m Inr by (simp add: performSearch_json_def performSearch_def rank_json_abs)
  qed
qed

subsection \<open>Properties\<close>

text \<open>C8. Over any JSON value, a search throws exactly when the query has at
  least 2 characters and either the stored index is not an array (for instance an
  object such as \<open>{"posts": [...]}\<close>, which the loader stores without
  complaint), or some entry lacks a string \<open>title\<close> or \<open>content\<close>, or has
  truthy \<open>tags\<close> that are not an array; an empty array never throws.\<close>

theorem performSearch_json_error_iff:
  "performSearch_json idx q = Inl TypeError \<longleftrightarrow>
     2 \<le> length q \<and> (case idx of JArr js \<Rightarrow> \<not> list_all json_post_ok js | _ \<Rightarrow> True)"
proof (cases "q = [] \<or> length q < 2")
  case True
  then show ?thesis by (auto simp: performSearch_json_def)
next
  case False
  show ?thesis
  proof (cases idx)
    case (JArr js)
    have "isl (map_js (score_json (query_terms q)) js) \<longleftrightarrow> \<not> list_all json_post_ok js"
      using map_js_Inl_iff [of "score_json (query_terms q)" js]
      by (simp add: list_all_iff isl_ex_Inl [symmetric] score_json_isl_iff)
    then show ?thesis
      using False JArr by (auto simp: performSearch_json_def json_result_isl split: sum.splits)
  qed (use False in \<open>simp_all add: performSearch_json_def\<close>)
qed

theorem performSearch_json_error_iff_witness:
  "performSearch_json (JObj [(''posts'', JArr [])]) ''cache'' = Inl TypeError"
  using performSearch_json_error_iff [of "JObj [(''posts'', JArr [])]" "''cache''"] by simp



end
