(* ===== verification/Highlight.thy ===== *)
theory Highlight
  imports Prelude
begin

text \<open>
  The highlighter of \<open>src/assets/js/search.js\<close>: \<open>escapeRegex\<close>, the global
  case-insensitive replacement \<open>text.replace(new RegExp('(' + escaped + ')', 'gi'),
  '<mark>$1</mark>')\<close>, and \<open>highlightText\<close>, which applies that replacement once per
  query term of length at least two, each pass on the output of the previous one.
  The regular expression built from an escaped term is a literal pattern; the
  function \<open>regex_literal\<close> reads such a pattern back (the part of the ECMAScript
  pattern grammar it uses: literal characters and identity escapes of syntax
  characters), and the replacement is modelled as the left-to-right scan that a
  global match of that literal performs.
\<close>

subsection \<open>escapeRegex\<close>

text \<open>The class \<open>[.*+?^${}()|[\]\\]\<close>: the syntax characters of ECMAScript patterns.\<close>

definition regex_special :: "char \<Rightarrow> bool" where
  "regex_special c \<longleftrightarrow>
     (of_char c :: nat) \<in> {46, 42, 43, 63, 94, 36, 123, 125, 40, 41, 124, 91, 93, 92}"

definition backslash :: char where
  "backslash = CHR 0x5C"

text \<open>\<open>string.replace(/[.*+?^${}()|[\]\\]/g, '\\$&')\<close>: a backslash before every
  syntax character.\<close>

definition escapeRegex :: "string \<Rightarrow> string" where
  "escapeRegex s = concat (map (\<lambda>c. if regex_special c then [backslash, c] else [c]) s)"

subsection \<open>Reading a pattern\<close>

text \<open>The reading of a pattern by \<open>RegExp\<close>, for the part of the ECMAScript
  Pattern grammar that a literal uses, written from the standard and not from the
  code: a \<open>SyntaxCharacter\<close> (one of \<open>^ $ \ . * + ? ( ) [ ] { } |\<close>) is an
  operator; any other character is a \<open>PatternCharacter\<close> that matches itself; a
  backslash followed by a syntax character is an \<open>IdentityEscape\<close> that matches
  that character.  A pattern with an unescaped syntax character, or another
  escape (a class such as \<open>\d\<close>, a control escape, a back-reference), has no
  literal reading.  This is the strict grammar; without the \<open>u\<close> flag browsers
  also accept a lone \<open>]\<close>, \<open>{\<close> or \<open>}\<close> and an escaped punctuation
  character (Annex B), so a pattern literal here is literal in every mode.\<close>

definition syntax_character :: "char \<Rightarrow> bool" where
  "syntax_character c \<longleftrightarrow> c = CHR 0x5C \<or> c \<in> set ''^$.*+?()[]{}|''"

text \<open>The literal a pattern denotes, when it consists of pattern characters and
  identity escapes of syntax characters only.\<close>

fun regex_literal :: "string \<Rightarrow> string option" where
  "regex_literal [] = Some []"
| "regex_literal (c # cs) =
     (if c = backslash then
        (case cs of [] \<Rightarrow> None
         | d # ds \<Rightarrow> if syntax_character d then map_option (Cons d) (regex_literal ds) else None)
      else if syntax_character c then None
      else map_option (Cons c) (regex_literal cs))"

subsection \<open>Global case-insensitive replacement\<close>

text \<open>The \<open>i\<close> flag compares canonicalised characters; on Latin-1 two
  characters have the same canonical form exactly when they have the same
  \<open>toLowerCase\<close>.\<close>

definition ci_prefix :: "string \<Rightarrow> string \<Rightarrow> bool" where
  "ci_prefix t s \<longleftrightarrow> length t \<le> length s \<and> map lower_char t = map lower_char (take (length t) s)"

definition mark_open :: string where
  "mark_open = ''<mark>''"

definition mark_close :: string where
  "mark_close = ''</mark>''"

text \<open>\<open>s.replace(/(t)/gi, '<mark>$1</mark>')\<close> for the literal \<open>t\<close>: scan from the
  left; a match is wrapped, with its own letters, and the scan resumes after it.
  An empty pattern matches at every position, the end included.\<close>

function mark_all :: "string \<Rightarrow> string \<Rightarrow> string" where
  "mark_all t [] = (if t = [] then mark_open @ mark_close else [])"
| "mark_all t (c # cs) =
     (if t = [] then mark_open @ mark_close @ c # mark_all t cs
      else if ci_prefix t (c # cs) then
        mark_open @ take (length t) (c # cs) @ mark_close @ mark_all t (drop (length t) (c # cs))
      else c # mark_all t cs)"
  by pat_completeness auto
termination
  by (relation "measure (\<lambda>(t, s). length s)") auto

text \<open>\<open>highlightText(text, query)\<close>: the empty query returns the text; otherwise
  the terms of length at least two, in query order, each replace in the result of
  the one before.\<close>

definition highlight_terms :: "string \<Rightarrow> string list" where
  "highlight_terms query = filter (\<lambda>t. 2 \<le> length t) (split_ws query)"

definition highlightText :: "string \<Rightarrow> string \<Rightarrow> string" where
  "highlightText text query =
     (if query = [] then text else fold mark_all (highlight_terms query) text)"

subsection \<open>Reading the markup back\<close>

text \<open>The text a reader sees in a highlighted fragment: the fragment with the
  \<open><mark>\<close> and \<open></mark>\<close> tags removed.\<close>

function strip_marks :: "string \<Rightarrow> string" where
  "strip_marks [] = []"
| "strip_marks (c # cs) =
     (if js_starts_with (c # cs) mark_open then strip_marks (drop (length mark_open) (c # cs))
      else if js_starts_with (c # cs) mark_close then strip_marks (drop (length mark_close) (c # cs))
      else c # strip_marks cs)"
  by pat_completeness auto
termination
  by (relation "measure length") (auto simp: mark_open_def mark_close_def)

subsection \<open>Lemmas\<close>

lemma regex_special_backslash [simp]: "regex_special backslash"
  by (simp add: regex_special_def backslash_def)

text \<open>The class of line 93 is exactly the syntax characters of the standard.\<close>

lemma regex_special_syntax: "regex_special c \<longleftrightarrow> syntax_character c"
  unfolding syntax_character_def regex_special_def
  by (simp only: of_char_eq_iff [symmetric, where 'a=nat] set_simps insert_iff empty_iff) (simp, blast)

lemma syntax_character_backslash [simp]: "syntax_character backslash"
  by (simp add: syntax_character_def backslash_def)

lemma escapeRegex_Nil [simp]: "escapeRegex [] = []"
  by (simp add: escapeRegex_def)

lemma escapeRegex_Cons:
  "escapeRegex (c # s) = (if regex_special c then [backslash, c] else [c]) @ escapeRegex s"
  by (simp add: escapeRegex_def)

lemma mark_open_ne: "js_starts_with (mark_close @ x) mark_open = False"
  by (simp add: mark_open_def mark_close_def)

lemma strip_marks_open [simp]: "strip_marks (mark_open @ x) = strip_marks x"
proof -
  obtain c cs where "mark_open @ x = c # cs" by (simp add: mark_open_def)
  moreover have "js_starts_with (mark_open @ x) mark_open"
    by (simp add: js_string_simps)
  ultimately show ?thesis
    by (metis strip_marks.simps(2) append_eq_conv_conj)
qed

lemma strip_marks_close [simp]: "strip_marks (mark_close @ x) = strip_marks x"
proof -
  obtain c cs where "mark_close @ x = c # cs" by (simp add: mark_close_def)
  moreover have "js_starts_with (mark_close @ x) mark_close"
    by (simp add: js_string_simps)
  ultimately show ?thesis
    using mark_open_ne [of x] by (metis strip_marks.simps(2) append_eq_conv_conj)
qed

lemma strip_marks_plain:
  "CHR ''<'' \<notin> set m \<Longrightarrow> strip_marks (m @ y) = m @ strip_marks y"
proof (induction m)
  case Nil
  then show ?case by simp
next
  case (Cons c m)
  have "\<not> js_starts_with (c # m @ y) mark_open" "\<not> js_starts_with (c # m @ y) mark_close"
    using Cons.prems by (auto simp: mark_open_def mark_close_def)
  with Cons show ?case by simp
qed

lemma mark_all_strip:
  "CHR ''<'' \<notin> set s \<Longrightarrow> strip_marks (mark_all t s) = s"
proof (induction t s rule: mark_all.induct)
  case (1 t)
  then show ?case using strip_marks_close [of "[]"] by simp
next
  case (2 t c cs)
  show ?case
  proof (cases "t = []")
    case True
    with "2.IH"(1) "2.prems" show ?thesis
      by (simp add: strip_marks_plain [of "[c]", simplified])
  next
    case False
    note t = False
    show ?thesis
    proof (cases "ci_prefix t (c # cs)")
      case True
      let ?n = "length t"
      have "CHR ''<'' \<notin> set (take ?n (c # cs))" "CHR ''<'' \<notin> set (drop ?n (c # cs))"
        using "2.prems" by (auto dest: in_set_takeD in_set_dropD)
      with t True "2.IH"(2) show ?thesis
        by (simp add: strip_marks_plain)
    next
      case False
      with t "2.IH"(3) "2.prems" show ?thesis
        by (simp add: strip_marks_plain [of "[c]", simplified])
    qed
  qed
qed

lemma strip_marks_no_lt: "CHR ''<'' \<notin> set s \<Longrightarrow> strip_marks s = s"
  using strip_marks_plain [of s "[]"] by simp

lemma highlight_terms_no_ws:
  "\<forall>c\<in>set q. \<not> is_ws c \<Longrightarrow> highlight_terms q = (if 2 \<le> length q then [q] else [])"
  by (simp add: highlight_terms_def split_ws_no_ws)

lemma highlightText_one_word:
  "\<forall>c\<in>set q. \<not> is_ws c \<Longrightarrow> highlightText text q = (if 2 \<le> length q then mark_all q text else text)"
  by (auto simp: highlightText_def highlight_terms_no_ws)

lemma ci_prefix_sublist:
  "ci_prefix t s \<Longrightarrow> sublist (map lower_char t) (map lower_char s)"
proof -
  assume "ci_prefix t s"
  then have "map lower_char t = take (length t) (map lower_char s)"
    by (simp add: ci_prefix_def take_map)
  then show ?thesis
    by (metis append_take_drop_id sublist_append_rightI)
qed

lemma mark_all_no_match:
  "t \<noteq> [] \<Longrightarrow> \<not> sublist (map lower_char t) (map lower_char s) \<Longrightarrow> mark_all t s = s"
proof (induction t s rule: mark_all.induct)
  case (1 t)
  then show ?case by simp
next
  case (2 t c cs)
  have "\<not> ci_prefix t (c # cs)"
    using "2.prems"(2) ci_prefix_sublist by blast
  moreover have "\<not> sublist (map lower_char t) (map lower_char cs)"
    using "2.prems"(2) by (auto simp: sublist_Cons_right)
  ultimately show ?case
    using "2.IH"(3) "2.prems"(1) by simp
qed

lemma escapeRegex_reads: "regex_literal (escapeRegex s) = Some s"
proof (induction s)
  case Nil
  then show ?case by simp
next
  case (Cons c s)
  have "\<not> syntax_character c \<Longrightarrow> c \<noteq> backslash"
    by auto
  with Cons show ?case
    by (auto simp: escapeRegex_Cons regex_special_syntax)
qed

lemma regex_literal_escape: "regex_literal p = Some s \<Longrightarrow> p = escapeRegex s"
proof (induction p arbitrary: s rule: regex_literal.induct)
  case 1
  then show ?case by simp
next
  case (2 c cs)
  show ?case
  proof (cases "c = backslash")
    case True
    with "2.prems" obtain d ds s' where cs: "cs = d # ds" and d: "syntax_character d"
      and r: "regex_literal ds = Some s'" and s: "s = d # s'"
      by (auto split: list.splits if_splits)
    with True "2.IH"(1) show ?thesis
      by (simp add: escapeRegex_Cons regex_special_syntax)
  next
    case False
    with "2.prems" obtain s' where c: "\<not> syntax_character c"
      and r: "regex_literal cs = Some s'" and s: "s = c # s'"
      by (auto split: if_splits)
    with False "2.IH"(2) show ?thesis
      by (simp add: escapeRegex_Cons regex_special_syntax)
  qed
qed

text \<open>A scan splits at a point that no match straddles.\<close>

lemma ci_prefix_append:
  "length t \<le> length x \<Longrightarrow> ci_prefix t (x @ y) \<longleftrightarrow> ci_prefix t x"
  by (simp add: ci_prefix_def)

lemma mark_all_append:
  assumes "t \<noteq> []"
    and "\<forall>i<length x. ci_prefix t (drop i (x @ y)) \<longrightarrow> i + length t \<le> length x"
  shows "mark_all t (x @ y) = mark_all t x @ mark_all t y"
  using assms(2)
proof (induction "length x" arbitrary: x rule: less_induct)
  case less
  show ?case
  proof (cases x)
    case Nil
    then show ?thesis using assms(1) by simp
  next
    case (Cons c cs)
    show ?thesis
    proof (cases "ci_prefix t (x @ y)")
      case True
      let ?n = "length t"
      have n: "?n \<le> length x"
        using less.prems True Cons by fastforce
      have "\<forall>i<length (drop ?n x). ci_prefix t (drop i (drop ?n x @ y)) \<longrightarrow> i + ?n \<le> length (drop ?n x)"
      proof (intro allI impI)
        fix i assume i: "i < length (drop ?n x)" and m: "ci_prefix t (drop i (drop ?n x @ y))"
        have "i + ?n < length x" using i by simp
        moreover have "ci_prefix t (drop (i + ?n) (x @ y))"
          using m n by (simp add: add.commute)
        ultimately have "i + ?n + ?n \<le> length x"
          using less.prems by blast
        then show "i + ?n \<le> length (drop ?n x)" by simp
      qed
      then have "mark_all t (drop ?n x @ y) = mark_all t (drop ?n x) @ mark_all t y"
        using less.hyps [of "drop ?n x"] assms(1) Cons by simp
      have "take ?n (x @ y) = take ?n x" "drop ?n (x @ y) = drop ?n x @ y"
        using n by simp_all
      then show ?thesis
        using True n assms(1) Cons ci_prefix_append [OF n, of y] \<open>mark_all t (drop ?n x @ y) = _\<close>
        by simp
    next
      case False
      have nx: "\<not> ci_prefix t x"
        using False by (auto simp: ci_prefix_def)
      have "\<forall>i<length cs. ci_prefix t (drop i (cs @ y)) \<longrightarrow> i + length t \<le> length cs"
      proof (intro allI impI)
        fix i assume "i < length cs" "ci_prefix t (drop i (cs @ y))"
        then show "i + length t \<le> length cs"
          using less.prems [rule_format, of "Suc i"] Cons by simp
      qed
      then have "mark_all t (cs @ y) = mark_all t cs @ mark_all t y"
        using less.hyps [of cs] Cons by simp
      then show ?thesis
        using False nx assms(1) Cons by simp
    qed
  qed
qed

lemma lower_char_lt: "lower_char c = CHR ''<'' \<longleftrightarrow> c = CHR ''<''"
proof
  assume h: "lower_char c = CHR ''<''"
  show "c = CHR ''<''"
  proof (cases "is_upper c")
    case True
    then have "(of_char (lower_char c) :: nat) = of_char c + 32"
      by (auto simp: lower_char_def is_upper_def)
    with h True show ?thesis by (simp add: is_upper_def)
  next
    case False
    then show ?thesis using h by (simp add: lower_char_def)
  qed
next
  assume "c = CHR ''<''"
  then show "lower_char c = CHR ''<''" by (simp add: lower_char_def is_upper_def)
qed

text \<open>A term without \<open><\<close> never matches across the start of a tag.\<close>

lemma no_match_across_lt:
  assumes "CHR ''<'' \<notin> set t"
  shows "\<forall>i<length x. ci_prefix t (drop i (x @ CHR ''<'' # y)) \<longrightarrow> i + length t \<le> length x"
proof (intro allI impI)
  fix i assume i: "i < length x" and m: "ci_prefix t (drop i (x @ CHR ''<'' # y))"
  show "i + length t \<le> length x"
  proof (rule ccontr)
    assume "\<not> ?thesis"
    then have j: "length x - i < length t" using i by simp
    have "map lower_char t ! (length x - i) = map lower_char (take (length t) (drop i (x @ CHR ''<'' # y))) ! (length x - i)"
      using m by (simp add: ci_prefix_def)
    moreover have "lower_char (CHR ''<'') = CHR ''<''"
      by (simp add: lower_char_lt)
    ultimately have "t ! (length x - i) = CHR ''<''"
      using i j by (simp add: nth_append lower_char_lt)
    then show False
      using assms j by (metis nth_mem)
  qed
qed

text \<open>The scan inserts a tag wherever its term occurs.\<close>

lemma mark_all_has_open:
  "t \<noteq> [] \<Longrightarrow> ci_prefix t (drop i s) \<Longrightarrow> sublist mark_open (mark_all t s)"
proof (induction t s arbitrary: i rule: mark_all.induct)
  case (1 t)
  then show ?case by (simp add: ci_prefix_def)
next
  case (2 t c cs)
  show ?case
  proof (cases "ci_prefix t (c # cs)")
    case True
    then show ?thesis using "2.prems"(1) by simp
  next
    case False
    then have "i \<noteq> 0" using "2.prems"(2) by (cases i) auto
    then have "ci_prefix t (drop (i - 1) cs)"
      using "2.prems"(2) by (cases i) auto
    then have "sublist mark_open (mark_all t cs)"
      using "2.IH"(3) False "2.prems"(1) by blast
    then show ?thesis
      using False "2.prems"(1) by (simp add: sublist_Cons_right)
  qed
qed

text \<open>A pass for the term \<open>mark\<close> over a text holding a \<open><mark>\<close> tag marks the
  tag's name.\<close>

lemma mark_pass_breaks_tag:
  "sublist mark_open u \<Longrightarrow> sublist ''<<mark>mark</mark>>'' (mark_all ''mark'' u)"
proof -
  assume "sublist mark_open u"
  then obtain x y where u: "u = x @ mark_open @ y"
    by (auto simp: sublist_def)
  have e: "mark_open @ y = CHR ''<'' # ''mark>'' @ y"
    by (simp add: mark_open_def)
  have "mark_all ''mark'' (x @ mark_open @ y) = mark_all ''mark'' x @ mark_all ''mark'' (mark_open @ y)"
  proof -
    have "\<forall>i<length x. ci_prefix ''mark'' (drop i (x @ CHR ''<'' # ''mark>'' @ y)) \<longrightarrow>
        i + length ''mark'' \<le> length x"
      by (rule no_match_across_lt) simp
    then show ?thesis
      unfolding e by (rule mark_all_append [rotated]) simp
  qed
  moreover have "mark_all ''mark'' (mark_open @ y) =
      ''<<mark>mark</mark>>'' @ mark_all ''mark'' y"
    by (simp add: mark_open_def mark_close_def ci_prefix_def lower_char_def is_upper_def)
  ultimately show ?thesis
    unfolding u by (metis sublist_appendI)
qed

subsection \<open>Properties\<close>

text \<open>C11. The pattern \<open>escapeRegex\<close> builds from a term denotes that term
  literally, and it is the only literal pattern for it: a pattern reads as the
  literal \<open>s\<close> under the ECMAScript grammar exactly when it is
  \<open>escapeRegex s\<close>.  So the class of line 93 escapes every syntax character
  (else the pattern has an operator) and nothing else (else it has an escape
  that is not an identity escape).\<close>

theorem escapeRegex_roundtrip: "regex_literal p = Some s \<longleftrightarrow> p = escapeRegex s"
  using escapeRegex_reads regex_literal_escape by blast

text \<open>C13. For a query that is one word, removing the \<open><mark>\<close> tags from the
  highlighted text gives back the text exactly (for a text without \<open><\<close>, whose
  own markup would otherwise be read as well): highlighting adds markup only.\<close>

theorem highlightText_strip:
  assumes "\<forall>c\<in>set q. \<not> is_ws c" and "CHR ''<'' \<notin> set text"
  shows "strip_marks (highlightText text q) = text"
  using assms by (simp add: highlightText_one_word mark_all_strip strip_marks_no_lt)

theorem highlightText_strip_witness:
  "highlightText ''Cache'' ''ca'' = ''<mark>Ca</mark>che'' \<and>
   strip_marks ''<mark>Ca</mark>che'' = ''Cache''"
proof -
  have h: "highlightText ''Cache'' ''ca'' = ''<mark>Ca</mark>che''"
    by code_simp
  have "\<forall>c\<in>set ''ca''. \<not> is_ws c" "CHR ''<'' \<notin> set ''Cache''"
    by (simp_all add: is_ws_def)
  then have "strip_marks (highlightText ''Cache'' ''ca'') = ''Cache''"
    by (rule highlightText_strip)
  with h show ?thesis by simp
qed

text \<open>C14. The passes are sequential and each one scans the output of the one
  before, the inserted tags included: for a query of a word \<open>t\<close> followed by
  \<open>mark\<close>, on any text in which \<open>t\<close> occurs in any case, the second pass
  matches inside a \<open><mark>\<close> tag that the first one inserted, and the output holds
  the broken markup \<open><<mark>mark</mark>>\<close>.\<close>

theorem highlight_nested_marks:
  assumes "2 \<le> length t" and "\<forall>c\<in>set t. \<not> is_ws c" and "ci_prefix t (drop i text)"
  shows "sublist ''<<mark>mark</mark>>'' (highlightText text (t @ '' mark''))"
proof -
  have "highlight_terms (t @ '' mark'') = [t, ''mark'']"
    using assms(1,2) by (simp add: highlight_terms_def split_ws_two_words is_ws_def)
  then have h: "highlightText text (t @ '' mark'') = mark_all ''mark'' (mark_all t text)"
    by (simp add: highlightText_def)
  have "t \<noteq> []" using assms(1) by auto
  then show ?thesis
    unfolding h using mark_all_has_open [OF _ assms(3)] by (blast intro: mark_pass_breaks_tag)
qed

theorem highlight_nested_marks_witness:
  "sublist ''<<mark>mark</mark>>'' (highlightText ''A cache stores...'' ''cache mark'')"
proof -
  have "ci_prefix ''cache'' (drop 2 ''A cache stores...'')"
    by code_simp
  moreover have "\<forall>c\<in>set ''cache''. \<not> is_ws c"
    by (simp add: is_ws_def)
  ultimately show ?thesis
    using highlight_nested_marks [of "''cache''" 2 "''A cache stores...''"] by simp
qed

text \<open>C31. A text in which no term of the query occurs, in any case, is returned
  unchanged by \<open>highlightText\<close>.\<close>

theorem highlightText_no_match:
  assumes "\<forall>t\<in>set (highlight_terms q). \<not> sublist (map lower_char t) (map lower_char text)"
  shows "highlightText text q = text"
proof -
  have "fold mark_all ts text = text"
    if "set ts \<subseteq> set (highlight_terms q)" for ts
    using that
  proof (induction ts)
    case Nil
    then show ?case by simp
  next
    case (Cons t ts)
    have "t \<noteq> []" "\<not> sublist (map lower_char t) (map lower_char text)"
      using Cons.prems assms by (auto simp: highlight_terms_def)
    then have "mark_all t text = text"
      by (rule mark_all_no_match)
    with Cons show ?case by simp
  qed
  then show ?thesis
    by (simp add: highlightText_def)
qed

theorem highlightText_no_match_witness:
  "highlightText ''Intro'' ''cache'' = ''Intro''"
proof -
  have "\<forall>t\<in>set (highlight_terms ''cache''). \<not> sublist (map lower_char t) (map lower_char ''Intro'')"
    by code_simp
  then show ?thesis by (rule highlightText_no_match)
qed

end
