(* ===== verification/Render.thy ===== *)
theory Render
  imports Scorer Highlight
begin

text \<open>
  The result renderer of \<open>src/assets/js/search.js\<close>: \<open>renderResults\<close> builds the
  new \<open>innerHTML\<close> of the results container from the template literal of lines
  66--75, character for character (the line breaks and indentation of the
  template included).  The container is \<open>None\<close> when the page has no element
  \<open>search-results\<close>, otherwise \<open>Some\<close> of its current markup.  Interpolation
  \<open>${v}\<close> of an absent field prints \<open>undefined\<close>; \<open>highlightText\<close> of an absent
  title or content throws once a replacement is attempted.  No field is escaped.
\<close>

type_synonym element = "string option"

subsection \<open>Template pieces\<close>

definition nl :: string where
  "nl = [CHR 0x0A]"

definition indent :: "nat \<Rightarrow> string" where
  "indent n = replicate n (CHR '' '')"

text \<open>\<open>${v}\<close> for a value that is a string or \<open>undefined\<close>.\<close>

definition js_string_of :: "string option \<Rightarrow> string" where
  "js_string_of v = (case v of None \<Rightarrow> ''undefined'' | Some s \<Rightarrow> s)"

text \<open>\<open>highlightText(v, query)\<close> for a field that may be absent: the early return
  and the empty term list hand \<open>undefined\<close> back; a replacement on it throws.\<close>

definition highlight_value :: "string option \<Rightarrow> string \<Rightarrow> string js_result" where
  "highlight_value v query =
     (case v of Some t \<Rightarrow> Inr (highlightText t query)
      | None \<Rightarrow> if query = [] \<or> highlight_terms query = [] then Inr ''undefined''
               else Inl TypeError)"

definition tag_html :: "string \<Rightarrow> string" where
  \<open>tag_html tag = ''<span class="search-tag">'' @ tag @ ''</span>''\<close>

text \<open>\<open>(post.tags || []).map(tag => ...).join('')\<close>.\<close>

definition tags_html :: "'a post_scheme \<Rightarrow> string" where
  "tags_html p = concat (map tag_html (case tags p of None \<Rightarrow> [] | Some g \<Rightarrow> g))"

definition no_results_html :: string where
  \<open>no_results_html = ''<p class="no-results">No results found</p>''\<close>

text \<open>The anchor line of the template: \<open><a href="${post.url}" ...>${...}</a>\<close>.\<close>

definition title_anchor :: "string \<Rightarrow> string \<Rightarrow> string" where
  \<open>title_anchor u ht = ''<a href="'' @ u @ ''" class="search-result-title">'' @ ht @ ''</a>''\<close>

text \<open>The template literal of one result, as the concatenation of its pieces; the
  substitutions are evaluated left to right, so the title is highlighted before the
  content.\<close>

definition article_template :: "string \<Rightarrow> string \<Rightarrow> string \<Rightarrow> string \<Rightarrow> string \<Rightarrow> string" where
  \<open>article_template u ht d tg hc = concat
     [nl, indent 8, ''<article class="search-result">'',
      nl, indent 10, title_anchor u ht,
      nl, indent 10, ''<div class="search-result-meta">'',
      nl, indent 12, ''<time>'', d, ''</time>'',
      nl, indent 12, tg,
      nl, indent 10, ''</div>'',
      nl, indent 10, ''<p class="search-result-excerpt">'', hc, ''</p>'',
      nl, indent 8, ''</article>'',
      nl, indent 6]\<close>

definition article_html :: "scored \<Rightarrow> string \<Rightarrow> string js_result" where
  "article_html p query =
     (case highlight_value (title p) query of Inl e \<Rightarrow> Inl e
      | Inr ht \<Rightarrow> (case highlight_value (content p) query of Inl e \<Rightarrow> Inl e
        | Inr hc \<Rightarrow> Inr (article_template (js_string_of (url p)) ht (js_string_of (date p))
                           (tags_html p) hc)))"

subsection \<open>renderResults\<close>

definition renderResults :: "element \<Rightarrow> scored list \<Rightarrow> string \<Rightarrow> element js_result" where
  "renderResults searchResults results query =
     (case searchResults of None \<Rightarrow> Inr None
      | Some _ \<Rightarrow>
          if results = [] then Inr (Some no_results_html)
          else (case map_js (\<lambda>p. article_html p query) results of
                  Inl e \<Rightarrow> Inl e
                | Inr hs \<Rightarrow> Inr (Some (concat hs))))"

text \<open>A result whose tag carries markup, for the examples below.\<close>

definition script_result :: scored where
  "script_result = intro_result\<lparr>tags := Some [''<script>alert(1)</script>'']\<rparr>"

subsection \<open>Lemmas\<close>

lemma highlight_value_Some [simp]: "highlight_value (Some t) q = Inr (highlightText t q)"
  by (simp add: highlight_value_def)

lemma article_html_wf:
  "title p = Some t \<Longrightarrow> content p = Some c \<Longrightarrow> article_html p q =
     Inr (article_template (js_string_of (url p)) (highlightText t q) (js_string_of (date p))
            (tags_html p) (highlightText c q))"
  by (simp add: article_html_def)

lemma renderResults_article:
  assumes "renderResults (Some h) rs q = Inr (Some out)" and "r \<in> set rs"
  shows "\<exists>a. article_html r q = Inr a \<and> sublist a out"
proof -
  have ne: "rs \<noteq> []" using assms(2) by auto
  with assms(1) obtain hs where m: "map_js (\<lambda>p. article_html p q) rs = Inr hs"
    and out: "out = concat hs"
    by (auto simp: renderResults_def split: sum.splits)
  from m have all: "\<forall>x\<in>set rs. \<not> isl (article_html x q)"
    and hs: "hs = map (\<lambda>x. projr (article_html x q)) rs"
    by (simp_all add: map_js_Inr_iff)
  let ?a = "projr (article_html r q)"
  have "article_html r q = Inr ?a"
    using all assms(2) by (metis sum.collapse(2))
  moreover have "sublist ?a out"
    using assms(2) by (simp add: out hs sublist_concat_member)
  ultimately show ?thesis by blast
qed

lemma tag_in_tags_html:
  "tags p = Some g \<Longrightarrow> tg \<in> set g \<Longrightarrow> sublist (tag_html tg) (tags_html p)"
  by (simp add: tags_html_def sublist_concat_member)

lemma tags_html_in_template: "sublist tg (article_template u ht d tg hc)"
  unfolding article_template_def by (rule sublist_concat_member) simp

lemma anchor_in_template: "sublist (title_anchor u ht) (article_template u ht d tg hc)"
  unfolding article_template_def by (rule sublist_concat_member) simp

lemma article_html_Inr:
  assumes "article_html p q = Inr a"
  shows "\<exists>ht hc. highlight_value (title p) q = Inr ht \<and> highlight_value (content p) q = Inr hc \<and>
           a = article_template (js_string_of (url p)) ht (js_string_of (date p)) (tags_html p) hc"
  using assms by (auto simp: article_html_def split: sum.splits)

lemma renderResults_total:
  "wf_index rs \<Longrightarrow> \<exists>out. renderResults el rs q = Inr out"
proof -
  assume wf: "wf_index rs"
  have "\<forall>p\<in>set rs. \<exists>a. article_html p q = Inr a"
    using wf by (auto simp: wf_index_def wf_post_def list_all_iff article_html_def)
  then have "map_js (\<lambda>p. article_html p q) rs = Inr (map (\<lambda>p. projr (article_html p q)) rs)"
    by (intro map_js_map) auto
  then show ?thesis
    by (auto simp: renderResults_def split: option.splits)
qed

subsection \<open>Properties\<close>

text \<open>C16. Tag labels are interpolated into the markup verbatim, without escaping:
  a tag \<open>tg\<close> of a rendered result appears in the output as
  \<open><span class="search-tag">tg</span>\<close>, markup and script included.\<close>

theorem renderResults_tag_verbatim:
  assumes "renderResults (Some h) rs q = Inr (Some out)" and "r \<in> set rs"
    and "tags r = Some g" and "tg \<in> set g"
  shows "sublist (tag_html tg) out"
proof -
  obtain a where a: "article_html r q = Inr a" and a_out: "sublist a out"
    using renderResults_article [OF assms(1,2)] by blast
  then obtain ht hc where "a = article_template (js_string_of (url r)) ht (js_string_of (date r)) (tags_html r) hc"
    using article_html_Inr by blast
  then have "sublist (tags_html r) a"
    by (simp add: tags_html_in_template)
  moreover have "sublist (tag_html tg) (tags_html r)"
    using assms(3,4) by (rule tag_in_tags_html)
  ultimately show ?thesis
    using a_out by (meson sublist_order.order.trans)
qed

theorem renderResults_tag_verbatim_witness:
  \<open>sublist ''<span class="search-tag"><script>alert(1)</script></span>''
     (the (projr (renderResults (Some []) [script_result] ''zz'')))\<close>
proof -
  have h: "renderResults (Some []) [script_result] ''zz'' =
      Inr (Some (the (projr (renderResults (Some []) [script_result] ''zz''))))"
    by code_simp
  have "tags script_result = Some [''<script>alert(1)</script>'']"
    by (simp add: script_result_def)
  from renderResults_tag_verbatim [OF h _ this] show ?thesis
    by (simp add: tag_html_def)
qed

text \<open>C17. For every result, the rendered anchor links to its URL verbatim and
  its label is the highlighted title, inserted as it is, with no escaping.  When
  the query is one word and the title has no \<open><\<close>, removing the \<open><mark>\<close>
  tags from the label gives back the title exactly.  The second condition is
  needed: a title with \<open><\<close> is inserted as markup, so the spec's round trip
  fails for it.\<close>

theorem renderResults_title_url:
  assumes "renderResults (Some h) rs q = Inr (Some out)" and "r \<in> set rs"
    and "title r = Some t" and "url r = Some u"
  shows "sublist (title_anchor u (highlightText t q)) out \<and>
         ((\<forall>c\<in>set q. \<not> is_ws c) \<and> CHR ''<'' \<notin> set t \<longrightarrow> strip_marks (highlightText t q) = t)"
proof -
  obtain a where a: "article_html r q = Inr a" and a_out: "sublist a out"
    using renderResults_article [OF assms(1,2)] by blast
  then obtain hc where a_eq: "a = article_template u (highlightText t q) (js_string_of (date r)) (tags_html r) hc"
    using article_html_Inr assms(3,4) by (fastforce simp: js_string_of_def)
  have "sublist (title_anchor u (highlightText t q)) out"
    using a_out anchor_in_template a_eq by (meson sublist_order.order.trans)
  moreover have "(\<forall>c\<in>set q. \<not> is_ws c) \<and> CHR ''<'' \<notin> set t \<longrightarrow> strip_marks (highlightText t q) = t"
    by (simp add: highlightText_one_word mark_all_strip strip_marks_no_lt)
  ultimately show ?thesis by blast
qed

theorem renderResults_title_url_witness:
  "sublist (title_anchor ''/p1'' (highlightText ''Intro to Caching'' ''cache''))
     (the (projr (renderResults (Some []) [intro_result] ''cache''))) \<and>
   strip_marks (highlightText ''Intro to Caching'' ''cache'') = ''Intro to Caching''"
proof -
  have h: "renderResults (Some []) [intro_result] ''cache'' =
      Inr (Some (the (projr (renderResults (Some []) [intro_result] ''cache''))))"
    by code_simp
  have "(\<forall>c\<in>set ''cache''. \<not> is_ws c) \<and> CHR ''<'' \<notin> set ''Intro to Caching''"
    by (simp add: is_ws_def)
  moreover have "title intro_result = Some ''Intro to Caching''" "url intro_result = Some ''/p1''"
    by (simp_all add: intro_result_def)
  ultimately show ?thesis
    using renderResults_title_url [OF h, of intro_result] by simp
qed

end
