(* ===== verification/Controller.thy ===== *)
theory Controller
  imports Scorer Render Document
begin

text \<open>
  The query controller of \<open>src/assets/js/search.js\<close>: \<open>init\<close>, the debounced
  input handler, the URL-parameter search and the asynchronous index load, over an
  explicit model of the browser's event loop.  The state holds the module variables
  (\<open>searchIndex\<close>, the closure variable \<open>timeout\<close> of \<open>debounce\<close>), the two DOM
  elements (the value of the input, the markup of the results container), the
  pending \<open>setTimeout\<close> callbacks with their ids and due times, the clock, and the
  console.  The field \<open>searches\<close> is an observation only: the query of every search
  pass that ran, with the task it came from.  Callbacks never schedule or cancel
  timers themselves, and an exception in a callback aborts that callback only (it
  is reported on the console).  The script's bootstrap (\<open>search_script\<close>) runs
  \<open>init\<close> through the readiness idiom of \<open>Document\<close>, over a page whose two
  elements the parser adds.
\<close>

datatype origin = Typed | FromUrl

text \<open>The callbacks that can be pending in the timer queue.\<close>

datatype task = DebouncedSearch | UrlSearch string

text \<open>What the page offers \<open>init\<close>: the value of \<open>#search-input\<close> (\<open>None\<close>: no
  such element), the markup of \<open>#search-results\<close>, and \<open>urlParams.get('q')\<close>.\<close>

record page =
  input_el :: "string option"
  results_el :: element
  url_q :: "string option"

record runtime =
  inert :: bool
  searchIndex :: "post list"
  loading :: bool
  input_value :: string
  results_html :: element
  timeout :: "nat option"
  timers :: "(nat \<times> nat \<times> task) list"
  next_id :: nat
  now :: nat
  console :: "string list"
  searches :: "(origin \<times> string) list"

datatype event = Input string | FetchDone fetch_outcome | Tick

subsection \<open>Timers\<close>

definition debounce_wait :: nat where
  "debounce_wait = 300"

definition url_delay :: nat where
  "url_delay = 500"

text \<open>\<open>setTimeout(f, delay)\<close>: a fresh id, due \<open>delay\<close> after now.\<close>

definition setTimeout :: "task \<Rightarrow> nat \<Rightarrow> runtime \<Rightarrow> nat \<times> runtime" where
  "setTimeout k delay s =
     (next_id s, s\<lparr>timers := timers s @ [(next_id s, now s + delay, k)], next_id := Suc (next_id s)\<rparr>)"

text \<open>\<open>clearTimeout(id)\<close>: drop the timer if it is still pending; \<open>undefined\<close> and
  ids of timers that already ran are ignored.\<close>

definition clearTimeout :: "nat option \<Rightarrow> runtime \<Rightarrow> runtime" where
  "clearTimeout i s =
     (case i of None \<Rightarrow> s | Some j \<Rightarrow> s\<lparr>timers := filter (\<lambda>(i', _, _). i' \<noteq> j) (timers s)\<rparr>)"

text \<open>The timer that runs next when the clock reaches \<open>t\<close>: the earliest due, ties
  in the order of scheduling (the queue is kept in that order and \<open>sort_key\<close> is
  stable).\<close>

definition next_timer :: "(nat \<times> nat \<times> task) list \<Rightarrow> nat \<Rightarrow> (nat \<times> nat \<times> task) option" where
  "next_timer ts t =
     (case sort_key (\<lambda>(i, d, _). d) (filter (\<lambda>(i, d, _). d \<le> t) ts) of
        [] \<Rightarrow> None
      | x # _ \<Rightarrow> Some x)"

subsection \<open>The callbacks\<close>

definition uncaught :: string where
  "uncaught = ''Uncaught TypeError''"

text \<open>One search pass: \<open>performSearch(query)\<close>, then
  \<open>renderResults(results, query)\<close>; an exception ends the callback.\<close>

definition search_pass :: "origin \<Rightarrow> string \<Rightarrow> runtime \<Rightarrow> runtime" where
  "search_pass org query s =
     (let s1 = s\<lparr>searches := searches s @ [(org, query)]\<rparr> in
      case performSearch (searchIndex s) query of
        Inl _ \<Rightarrow> s1\<lparr>console := console s @ [uncaught]\<rparr>
      | Inr results \<Rightarrow>
          (case renderResults (results_html s) results query of
             Inl _ \<Rightarrow> s1\<lparr>console := console s @ [uncaught]\<rparr>
           | Inr el \<Rightarrow> s1\<lparr>results_html := el\<rparr>))"

text \<open>The debounced callback reads the input when it runs and trims it; the URL
  callback searches the parameter captured at \<open>init\<close>, untrimmed.\<close>

fun run_task :: "task \<Rightarrow> runtime \<Rightarrow> runtime" where
  "run_task DebouncedSearch s = search_pass Typed (js_trim (input_value s)) s"
| "run_task (UrlSearch q) s = search_pass FromUrl q s"

text \<open>The event loop up to time \<open>t\<close>: run every timer due by then, earliest first,
  the clock at each one's due time.\<close>

function run_timers :: "nat \<Rightarrow> runtime \<Rightarrow> runtime" where
  "run_timers t s =
     (case next_timer (timers s) t of
        None \<Rightarrow> s\<lparr>now := max (now s) t\<rparr>
      | Some (i, d, k) \<Rightarrow>
          run_timers t (run_task k (s\<lparr>timers := filter (\<lambda>(i', _, _). i' \<noteq> i) (timers s),
                                      now := max (now s) d\<rparr>)))"
  by pat_completeness auto
termination
proof (relation "measure (\<lambda>(t, s). length (timers s))", goal_cases)
  case 1
  show ?case by simp
next
  case (2 t s x i y d k)
  then obtain rest where
    "sort_key (\<lambda>(i, d, _). d) (filter (\<lambda>(i, d, _). d \<le> t) (timers s)) = (i, d, k) # rest"
    by (auto simp: next_timer_def split: list.splits)
  then have "(i, d, k) \<in> set (sort_key (\<lambda>(i, d, _). d) (filter (\<lambda>(i, d, _). d \<le> t) (timers s)))"
    by (metis list.set_intros(1))
  then have "(i, d, k) \<in> set (timers s)"
    by simp
  then have "length (filter (\<lambda>(i', _, _). i' \<noteq> i) (timers s)) < length (timers s)"
    by (auto intro!: length_filter_less)
  then show ?case
    by (cases k) (simp_all add: search_pass_def Let_def split: sum.splits)
qed

subsection \<open>The handlers\<close>

text \<open>\<open>debouncedSearch\<close>: \<open>clearTimeout(timeout); timeout = setTimeout(..., 300)\<close>.\<close>

definition debounced_input :: "runtime \<Rightarrow> runtime" where
  "debounced_input s =
     (let (i, s') = setTimeout DebouncedSearch debounce_wait (clearTimeout (timeout s) s)
      in s'\<lparr>timeout := Some i\<rparr>)"

text \<open>One event at time \<open>t\<close>: the timers due by then run first.  Typing sets the
  input's value and fires its \<open>input\<close> listener; the fetch of the index completes
  into \<open>loadSearchIndex\<close>; on an inert page no listener is attached (typing only
  changes the value) and no fetch was started.\<close>

fun handle :: "event \<Rightarrow> runtime \<Rightarrow> runtime" where
  "handle (Input v) s = (if inert s then s\<lparr>input_value := v\<rparr> else debounced_input (s\<lparr>input_value := v\<rparr>))"
| "handle (FetchDone r) s =
     (if \<not> loading s then s
      else (let (idx, msgs) = loadSearchIndex r (searchIndex s)
            in s\<lparr>searchIndex := idx, loading := False, console := console s @ msgs\<rparr>))"
| "handle Tick s = s"

definition dispatch :: "runtime \<Rightarrow> nat \<times> event \<Rightarrow> runtime" where
  "dispatch s te = handle (snd te) (run_timers (fst te) s)"

definition run :: "runtime \<Rightarrow> (nat \<times> event) list \<Rightarrow> runtime" where
  "run s es = fold (\<lambda>te s. dispatch s te) es s"

subsection \<open>init\<close>

definition blank :: runtime where
  "blank = \<lparr>inert = True, searchIndex = [], loading = False, input_value = [], results_html = None,
     timeout = None, timers = [], next_id = 1, now = 0, console = [], searches = []\<rparr>"

text \<open>\<open>init\<close> at time 0: with both elements present, start the fetch, attach the
  listener, and for a non-empty parameter \<open>q\<close> put it into the input and schedule
  the URL search after 500.\<close>

definition init :: "page \<Rightarrow> runtime" where
  "init p =
     (case (input_el p, results_el p) of
        (Some v, Some h) \<Rightarrow>
          (let s0 = blank\<lparr>inert := False, loading := True, input_value := v, results_html := Some h\<rparr>
           in case url_q p of
                Some q \<Rightarrow> if q = [] then s0
                          else snd (setTimeout (UrlSearch q) url_delay (s0\<lparr>input_value := q\<rparr>))
              | None \<Rightarrow> s0)
      | _ \<Rightarrow> blank\<lparr>input_value := (case input_el p of None \<Rightarrow> [] | Some v \<Rightarrow> v),
                   results_html := results_el p\<rparr>)"

subsection \<open>The script at page load\<close>

text \<open>The elements the parser adds that \<open>init\<close> looks up; \<open>getElementById\<close>
  returns the first element with the id in document order.  The parameter \<open>q\<close>
  is part of the location and known from the start.\<close>

datatype page_elem = InputElem string | ResultsElem string

fun parse_elem :: "page_elem \<Rightarrow> page \<times> runtime \<Rightarrow> page \<times> runtime" where
  "parse_elem (InputElem v) (p, s) = (if input_el p = None then (p\<lparr>input_el := Some v\<rparr>, s) else (p, s))"
| "parse_elem (ResultsElem h) (p, s) = (if results_el p = None then (p\<lparr>results_el := Some h\<rparr>, s) else (p, s))"

text \<open>Lines 132--136: \<open>init\<close> at \<open>DOMContentLoaded\<close> while the document is
  loading, at once otherwise; it reads the page as parsed by then.\<close>

definition search_script :: "(page \<times> runtime) document \<Rightarrow> (page \<times> runtime) document" where
  "search_script doc = when_ready (\<lambda>(p, s). (p, init p)) doc"

subsection \<open>Reference definitions\<close>

text \<open>A burst of typing: input events whose successive times lie closer together
  than the quiet window.\<close>

fun quick_burst :: "(nat \<times> string) list \<Rightarrow> bool" where
  "quick_burst [] = True"
| "quick_burst [x] = True"
| "quick_burst ((t1, v1) # (t2, v2) # rest) =
     (t1 \<le> t2 \<and> t2 < t1 + debounce_wait \<and> quick_burst ((t2, v2) # rest))"

definition typing :: "(nat \<times> string) list \<Rightarrow> (nat \<times> event) list" where
  "typing xs = map (\<lambda>(t, v). (t, Input v)) xs"

text \<open>The only pending timer is the debounced search, due at \<open>d\<close>.\<close>

definition debounce_pending :: "runtime \<Rightarrow> nat \<Rightarrow> bool" where
  "debounce_pending s d \<longleftrightarrow> (\<exists>i. timers s = [(i, d, DebouncedSearch)] \<and> timeout s = Some i)"

text \<open>The page of the examples: both elements present, no parameter.\<close>

definition plain_page :: page where
  "plain_page = \<lparr>input_el = Some [], results_el = Some [], url_q = None\<rparr>"

text \<open>The states the page can reach: \<open>init\<close> of any page, then any event at any
  time.\<close>

inductive reachable :: "runtime \<Rightarrow> bool" where
  start: "reachable (init p)"
| step: "reachable s \<Longrightarrow> reachable (dispatch s te)"

text \<open>The invariant of the controller: every pending timer has an id below
  \<open>next_id\<close> and is not overdue, the queue is in id order, a pending debounced
  search is the one \<open>timeout\<close> names, and an inert page has nothing pending and
  never searched.\<close>

definition ctl_inv :: "runtime \<Rightarrow> bool" where
  "ctl_inv s \<longleftrightarrow>
     (\<forall>(i, d, k)\<in>set (timers s). i < next_id s \<and> now s \<le> d) \<and>
     sorted_wrt (<) (map fst (timers s)) \<and>
     (\<forall>(i, d, k)\<in>set (timers s). k = DebouncedSearch \<longrightarrow> timeout s = Some i) \<and>
     (inert s \<longrightarrow> timers s = [] \<and> \<not> loading s \<and> searches s = [])"

text \<open>A page opened with \<open>?q=cache\<close>, and a page without a results container.\<close>

definition url_page :: page where
  "url_page = \<lparr>input_el = Some [], results_el = Some [], url_q = Some ''cache''\<rparr>"

definition bare_page :: page where
  "bare_page = \<lparr>input_el = Some [], results_el = None, url_q = Some ''cache''\<rparr>"

text \<open>A second post, found by the query \<open>systems\<close> only through its title.\<close>

definition systems_post :: post where
  "systems_post = \<lparr>title = Some ''Systems notes'', content = Some [], tags = None,
     url = Some ''/p2'', date = Some ''2024-02-01''\<rparr>"

text \<open>What an inert page keeps, whatever happens.\<close>

definition inert_frame :: "runtime \<Rightarrow> runtime \<Rightarrow> bool" where
  "inert_frame s s' \<longleftrightarrow> inert s' \<and> timers s' = timers s \<and> loading s' = loading s \<and>
     results_html s' = results_html s \<and> searches s' = searches s \<and> searchIndex s' = searchIndex s \<and>
     console s' = console s"

subsection \<open>Frame lemmas\<close>

lemma search_pass_frame [simp]:
  "timers (search_pass org q s) = timers s" "timeout (search_pass org q s) = timeout s"
  "next_id (search_pass org q s) = next_id s" "now (search_pass org q s) = now s"
  "inert (search_pass org q s) = inert s" "loading (search_pass org q s) = loading s"
  "input_value (search_pass org q s) = input_value s"
  "searchIndex (search_pass org q s) = searchIndex s"
  "searches (search_pass org q s) = searches s @ [(org, q)]"
  by (simp_all add: search_pass_def Let_def split: sum.splits)

lemma run_task_frame [simp]:
  "timers (run_task k s) = timers s" "timeout (run_task k s) = timeout s"
  "next_id (run_task k s) = next_id s" "now (run_task k s) = now s"
  "inert (run_task k s) = inert s" "loading (run_task k s) = loading s"
  "input_value (run_task k s) = input_value s"
  "searchIndex (run_task k s) = searchIndex s"
  by (cases k; simp)+

declare run_timers.simps [simp del]

lemma next_timer_None_iff: "next_timer ts t = None \<longleftrightarrow> (\<forall>(i, d, k)\<in>set ts. t < d)"
proof -
  have "next_timer ts t = None \<longleftrightarrow> filter (\<lambda>(i, d, _). d \<le> t) ts = []"
    by (auto simp: next_timer_def split: list.splits)
  also have "\<dots> \<longleftrightarrow> (\<forall>(i, d, k)\<in>set ts. t < d)"
    by (auto simp: filter_empty_conv)
  finally show ?thesis .
qed

lemma run_timers_none_due:
  "\<forall>(i, d, k)\<in>set (timers s). t < d \<Longrightarrow> run_timers t s = s\<lparr>now := max (now s) t\<rparr>"
  by (simp add: run_timers.simps [of t s] next_timer_None_iff [THEN iffD2])

lemma run_timers_single_due:
  assumes "timers s = [(i, d, k)]" and "d \<le> t"
  shows "run_timers t s = (run_task k (s\<lparr>timers := [], now := max (now s) d\<rparr>))\<lparr>now := max (max (now s) d) t\<rparr>"
proof -
  have "next_timer (timers s) t = Some (i, d, k)"
    using assms by (simp add: next_timer_def)
  then have "run_timers t s = run_timers t (run_task k (s\<lparr>timers := [], now := max (now s) d\<rparr>))"
    using assms by (simp add: run_timers.simps [of t s])
  also have "\<dots> = (run_task k (s\<lparr>timers := [], now := max (now s) d\<rparr>))\<lparr>now := max (max (now s) d) t\<rparr>"
    by (simp add: run_timers_none_due)
  finally show ?thesis .
qed

lemma run_Cons [simp]: "run s (e # es) = run (dispatch s e) es"
  by (simp add: run_def)

lemma run_Nil [simp]: "run s [] = s"
  by (simp add: run_def)

lemma run_append: "run s (es @ fs) = run (run s es) fs"
  by (simp add: run_def)

subsection \<open>The debounce window\<close>

text \<open>One keystroke while at most the debounced search is pending and not yet due:
  the pending search is cancelled and a new one is scheduled a full window later.\<close>

lemma dispatch_input_pending:
  assumes "\<not> inert s" and "now s \<le> t"
    and "timers s = [] \<or> (\<exists>d. debounce_pending s d \<and> t < d)"
  shows "debounce_pending (dispatch s (t, Input v)) (t + debounce_wait) \<and>
         searches (dispatch s (t, Input v)) = searches s \<and> input_value (dispatch s (t, Input v)) = v \<and>
         now (dispatch s (t, Input v)) = t \<and> \<not> inert (dispatch s (t, Input v))"
proof -
  have none: "\<forall>(i, d, k)\<in>set (timers s). t < d"
    using assms(3) by (auto simp: debounce_pending_def)
  let ?s1 = "s\<lparr>now := t, input_value := v\<rparr>"
  have cleared: "timers (clearTimeout (timeout s) ?s1) = []"
    using assms(3) by (auto simp: debounce_pending_def clearTimeout_def split: option.splits)
  have "dispatch s (t, Input v) = debounced_input ?s1"
    using assms(1,2) none by (simp add: dispatch_def run_timers_none_due max_def)
  then show ?thesis
    using assms(1) cleared
    by (simp add: debounced_input_def setTimeout_def debounce_pending_def clearTimeout_def
        split: option.splits)
qed

lemma burst_pending:
  assumes "\<not> inert s" and "now s \<le> t"
    and "timers s = [] \<or> (\<exists>d. debounce_pending s d \<and> t < d)"
    and "quick_burst ((t, v) # rest)"
  shows "debounce_pending (run s (typing ((t, v) # rest))) (fst (last ((t, v) # rest)) + debounce_wait) \<and>
         searches (run s (typing ((t, v) # rest))) = searches s \<and>
         input_value (run s (typing ((t, v) # rest))) = snd (last ((t, v) # rest)) \<and>
         now (run s (typing ((t, v) # rest))) = fst (last ((t, v) # rest)) \<and>
         \<not> inert (run s (typing ((t, v) # rest)))"
  using assms
proof (induction rest arbitrary: s t v)
  case Nil
  then show ?case
    using dispatch_input_pending [OF Nil.prems(1-3)] by (simp add: typing_def run_def)
next
  case (Cons x rest)
  obtain t' v' where x: "x = (t', v')" by (cases x)
  let ?s' = "dispatch s (t, Input v)"
  have step: "debounce_pending ?s' (t + debounce_wait) \<and> searches ?s' = searches s \<and>
      input_value ?s' = v \<and> now ?s' = t \<and> \<not> inert ?s'"
    by (rule dispatch_input_pending [OF Cons.prems(1-3)])
  have burst: "t \<le> t'" "t' < t + debounce_wait" "quick_burst ((t', v') # rest)"
    using Cons.prems(4) x by simp_all
  have "debounce_pending (run ?s' (typing ((t', v') # rest))) (fst (last ((t', v') # rest)) + debounce_wait) \<and>
        searches (run ?s' (typing ((t', v') # rest))) = searches ?s' \<and>
        input_value (run ?s' (typing ((t', v') # rest))) = snd (last ((t', v') # rest)) \<and>
        now (run ?s' (typing ((t', v') # rest))) = fst (last ((t', v') # rest)) \<and>
        \<not> inert (run ?s' (typing ((t', v') # rest)))"
    using step burst by (intro Cons.IH) auto
  then show ?case
    using step x by (simp add: typing_def)
qed

subsection \<open>The invariant\<close>

lemma next_timer_Some:
  assumes "next_timer ts t = Some (i, d, k)"
  shows "(i, d, k) \<in> set ts \<and> d \<le> t \<and> (\<forall>(i', d', k')\<in>set ts. d' \<le> t \<longrightarrow> d \<le> d')"
proof -
  let ?f = "filter (\<lambda>(i, d, _). d \<le> t) ts"
  obtain rest where eq: "sort_key (\<lambda>(i, d, _). d) ?f = (i, d, k) # rest"
    using assms by (auto simp: next_timer_def split: list.splits)
  then have mem: "(i, d, k) \<in> set ?f"
    by (metis list.set_intros(1) set_sort)
  have "sorted (map (\<lambda>(i, d, _). d) ((i, d, k) # rest))"
    by (metis eq sorted_sort_key)
  then have low: "\<forall>(i', d', k')\<in>set rest. d \<le> d'"
    by auto
  have "\<forall>(i', d', k')\<in>set ?f. d \<le> d'"
  proof
    fix x assume "x \<in> set ?f"
    then have "x \<in> set ((i, d, k) # rest)"
      by (metis eq set_sort)
    with low show "case x of (i', d', k') \<Rightarrow> d \<le> d'" by auto
  qed
  with mem show ?thesis by auto
qed

lemma ctl_inv_init: "ctl_inv (init p)"
  by (auto simp: ctl_inv_def init_def blank_def setTimeout_def url_delay_def Let_def
      split: option.splits)

lemma ctl_inv_run_timers: "ctl_inv s \<Longrightarrow> ctl_inv (run_timers t s)"
proof (induction t s rule: run_timers.induct)
  case (1 t s)
  show ?case
  proof (cases "next_timer (timers s) t")
    case None
    then have "\<forall>(i, d, k)\<in>set (timers s). t < d"
      by (simp add: next_timer_None_iff)
    with "1.prems" None show ?thesis
      by (fastforce simp: run_timers.simps [of t s] ctl_inv_def)
  next
    case (Some x)
    obtain i d k where x: "x = (i, d, k)" by (cases x)
    note nt = next_timer_Some [OF Some [unfolded x]]
    let ?s' = "run_task k (s\<lparr>timers := filter (\<lambda>(i', _, _). i' \<noteq> i) (timers s), now := max (now s) d\<rparr>)"
    have "ctl_inv ?s'"
    proof -
      have "\<not> inert s" using "1.prems" nt by (auto simp: ctl_inv_def)
      moreover have "\<forall>(i', d', k')\<in>set (timers s). i' \<noteq> i \<longrightarrow> max (now s) d \<le> d'"
      proof (intro ballI impI)
        fix y assume y: "y \<in> set (timers s)"
        obtain i' d' k' where yy: "y = (i', d', k')" by (cases y)
        have "now s \<le> d'" using "1.prems" y yy by (auto simp: ctl_inv_def)
        moreover have "d \<le> d'" using nt y yy by (cases "d' \<le> t") auto
        ultimately show "case y of (i', d', k') \<Rightarrow> i' \<noteq> i \<longrightarrow> max (now s) d \<le> d'"
          using yy by simp
      qed
      ultimately show ?thesis
        using "1.prems" by (auto simp: ctl_inv_def sorted_wrt_filter sorted_wrt_map)
    qed
    then have "ctl_inv (run_timers t ?s')"
      using "1.IH" Some x by blast
    then show ?thesis
      using Some x by (simp add: run_timers.simps [of t s])
  qed
qed

lemma ctl_inv_debounced_input: "ctl_inv s \<Longrightarrow> \<not> inert s \<Longrightarrow> ctl_inv (debounced_input s)"
  by (auto simp: ctl_inv_def debounced_input_def setTimeout_def clearTimeout_def
      sorted_wrt_append sorted_wrt_filter sorted_wrt_map split: option.splits)

lemma ctl_inv_handle: "ctl_inv s \<Longrightarrow> ctl_inv (handle e s)"
proof (cases e)
  case (Input v)
  assume inv: "ctl_inv s"
  have "ctl_inv (s\<lparr>input_value := v\<rparr>)"
    using inv by (simp add: ctl_inv_def)
  with Input inv show ?thesis
    by (auto intro: ctl_inv_debounced_input)
next
  case (FetchDone r)
  assume "ctl_inv s"
  with FetchDone show ?thesis
    by (cases r) (auto simp: ctl_inv_def)
next
  case Tick
  assume "ctl_inv s"
  with Tick show ?thesis by simp
qed

lemma reachable_ctl_inv: "reachable s \<Longrightarrow> ctl_inv s"
proof (induction rule: reachable.induct)
  case (start p)
  show ?case by (rule ctl_inv_init)
next
  case (step s te)
  then show ?case
    by (simp add: dispatch_def ctl_inv_handle ctl_inv_run_timers)
qed

lemma single_id_length:
  "distinct (map fst xs) \<Longrightarrow> \<forall>x\<in>set xs. fst x = c \<Longrightarrow> length xs \<le> 1"
proof (cases xs)
  case Nil
  then show ?thesis by simp
next
  case (Cons x ys)
  assume "distinct (map fst xs)" "\<forall>x\<in>set xs. fst x = c"
  with Cons have "ys = []"
    by (cases ys) auto
  with Cons show ?thesis by simp
qed

lemma inert_dispatch:
  "inert s \<Longrightarrow> timers s = [] \<Longrightarrow> \<not> loading s \<Longrightarrow> inert_frame s (dispatch s te)"
  by (cases "snd te") (simp_all add: dispatch_def run_timers_none_due inert_frame_def)

lemma inert_run:
  "inert s \<Longrightarrow> timers s = [] \<Longrightarrow> \<not> loading s \<Longrightarrow> inert_frame s (run s es)"
proof (induction es arbitrary: s)
  case Nil
  then show ?case by (simp add: inert_frame_def)
next
  case (Cons te es)
  from Cons.prems have f: "inert_frame s (dispatch s te)"
    by (rule inert_dispatch)
  then have "inert_frame (dispatch s te) (run (dispatch s te) es)"
    using Cons.prems by (intro Cons.IH) (simp_all add: inert_frame_def)
  with f show ?case
    by (simp add: inert_frame_def)
qed

lemma debounced_input_frame [simp]:
  "searchIndex (debounced_input s) = searchIndex s" "results_html (debounced_input s) = results_html s"
  "inert (debounced_input s) = inert s"
  by (simp_all add: debounced_input_def setTimeout_def clearTimeout_def split: option.splits prod.splits)

lemma search_pass_ok:
  assumes "wf_index (searchIndex s)" and "results_html s = Some h"
  shows "\<exists>rs out. performSearch (searchIndex s) q = Inr rs \<and> renderResults (Some h) rs q = Inr (Some out) \<and>
           results_html (search_pass org q s) = Some out \<and> console (search_pass org q s) = console s"
proof -
  obtain rs where rs: "performSearch (searchIndex s) q = Inr rs"
    using performSearch_total [OF assms(1)] by blast
  then have "wf_index rs" by (rule performSearch_wf)
  then obtain e where e: "renderResults (Some h) rs q = Inr e"
    using renderResults_total by blast
  then obtain out where "e = Some out"
    by (auto simp: renderResults_def split: if_splits sum.splits)
  with rs e assms(2) show ?thesis
    by (simp add: search_pass_def)
qed

text \<open>Loading the index, then typing \<open>v\<close> and waiting out the quiet window,
  leaves the results of one typed search pass over the loaded index.\<close>

lemma load_type_wait:
  assumes "\<not> inert s" and "loading s" and "timers s = []" and "now s \<le> t"
  shows "results_html (run s [(t, FetchDone (Json idx)), (t, Input v), (t + debounce_wait, Tick)]) =
         results_html (search_pass Typed (js_trim v) (s\<lparr>searchIndex := idx\<rparr>))"
proof -
  let ?s1 = "dispatch s (t, FetchDone (Json idx))"
  have s1: "?s1 = s\<lparr>now := t, searchIndex := idx, loading := False\<rparr>"
    using assms(2,3,4) by (simp add: dispatch_def run_timers_none_due max_def)
  let ?s2 = "dispatch ?s1 (t, Input v)"
  have p: "debounce_pending ?s2 (t + debounce_wait) \<and> input_value ?s2 = v \<and> now ?s2 = t"
    using dispatch_input_pending [of ?s1 t v] assms(1,3) s1 by simp
  then obtain i where ti: "timers ?s2 = [(i, t + debounce_wait, DebouncedSearch)]"
    by (auto simp: debounce_pending_def)
  have fr: "searchIndex ?s2 = idx" "results_html ?s2 = results_html s"
    using assms(1,3) s1 by (simp_all add: dispatch_def run_timers_none_due)
  have "run s [(t, FetchDone (Json idx)), (t, Input v), (t + debounce_wait, Tick)] = run_timers (t + debounce_wait) ?s2"
    by (simp add: dispatch_def)
  also have "\<dots> = (run_task DebouncedSearch (?s2\<lparr>timers := [], now := max (now ?s2) (t + debounce_wait)\<rparr>))
           \<lparr>now := max (max (now ?s2) (t + debounce_wait)) (t + debounce_wait)\<rparr>"
    using ti by (rule run_timers_single_due) simp
  finally show ?thesis
    using p fr by (simp add: search_pass_def Let_def split: sum.splits)
qed

lemma run_timers_next:
  "next_timer (timers s) t = Some (i, d, k) \<Longrightarrow>
   run_timers t s = run_timers t (run_task k (s\<lparr>timers := filter (\<lambda>(i', _, _). i' \<noteq> i) (timers s),
                                              now := max (now s) d\<rparr>))"
  by (simp add: run_timers.simps [of t s])

lemma init_url:
  assumes "input_el p = Some v0" and "results_el p = Some h" and "url_q p = Some q" and "q \<noteq> []"
  shows "init p = blank\<lparr>inert := False, loading := True, results_html := Some h, input_value := q,
                       timers := [(1, url_delay, UrlSearch q)], next_id := 2\<rparr>"
  using assms by (simp add: init_def setTimeout_def blank_def)

lemma search_pass_empty_index:
  "searchIndex s = [] \<Longrightarrow> results_html s = Some h \<Longrightarrow>
     search_pass org q s = s\<lparr>searches := searches s @ [(org, q)], results_html := Some no_results_html\<rparr>"
  by (simp add: search_pass_def performSearch_def rank_def renderResults_def)

lemma search_script_when_ready: "search_script = when_ready (\<lambda>(p, s). (p, init p))"
  by (simp add: fun_eq_iff search_script_def)

subsection \<open>Properties\<close>

text \<open>C18. Debounce: from a state with no timer pending, a burst of keystrokes in
  which successive keystrokes come less than 300 apart, followed by a quiet window
  of 300, runs exactly one search pass, and it searches the trimmed value of the
  last keystroke; the passes of the earlier keystrokes were cancelled, not run.\<close>

theorem debounce_one_search:
  assumes "\<not> inert s" and "timers s = []" and "now s \<le> t"
    and "quick_burst ((t, v) # rest)"
  shows "searches (run s (typing ((t, v) # rest) @ [(fst (last ((t, v) # rest)) + debounce_wait, Tick)]))
         = searches s @ [(Typed, js_trim (snd (last ((t, v) # rest))))]"
proof -
  define s' where "s' = run s (typing ((t, v) # rest))"
  define T where "T = fst (last ((t, v) # rest)) + debounce_wait"
  define lv where "lv = snd (last ((t, v) # rest))"
  have b: "debounce_pending s' T \<and> searches s' = searches s \<and> input_value s' = lv"
    using burst_pending [OF assms(1,3) _ assms(4)] assms(2)
    unfolding s'_def T_def lv_def by blast
  then obtain i where ti: "timers s' = [(i, T, DebouncedSearch)]"
    by (auto simp: debounce_pending_def)
  have "run s (typing ((t, v) # rest) @ [(T, Tick)]) = run_timers T s'"
    by (simp add: run_append s'_def dispatch_def)
  also have "\<dots> = (run_task DebouncedSearch (s'\<lparr>timers := [], now := max (now s') T\<rparr>))
           \<lparr>now := max (max (now s') T) T\<rparr>"
    using ti by (rule run_timers_single_due) simp
  finally have "searches (run s (typing ((t, v) # rest) @ [(T, Tick)])) = searches s' @ [(Typed, js_trim lv)]"
    using b by simp
  then show ?thesis
    using b unfolding T_def lv_def by simp
qed

theorem debounce_one_search_witness:
  "searches (run (init plain_page)
     (typing [(100, ''ca''), (200, ''cac''), (350, ''cache'')] @ [(650, Tick)])) = [(Typed, ''cache'')]"
proof -
  have "\<not> inert (init plain_page)" "timers (init plain_page) = []" "now (init plain_page) \<le> 100"
    by (simp_all add: init_def plain_page_def blank_def)
  moreover have "quick_burst [(100, ''ca''), (200, ''cac''), (350, ''cache'')]"
    by (simp add: debounce_wait_def)
  ultimately have "searches (run (init plain_page)
     (typing [(100, ''ca''), (200, ''cac''), (350, ''cache'')] @ [(350 + debounce_wait, Tick)]))
       = searches (init plain_page) @ [(Typed, js_trim ''cache'')]"
    using debounce_one_search [of "init plain_page" 100 "''ca''" "[(200, ''cac''), (350, ''cache'')]"]
    by simp
  then show ?thesis
    by (simp add: debounce_wait_def init_def plain_page_def blank_def js_trim_def is_ws_def)
qed

text \<open>C19. In every reachable state at most one debounced search is pending, it
  is the timer that the closure variable \<open>timeout\<close> names (so the next keystroke
  cancels it), and no pending timer is overdue.\<close>

theorem reachable_single_debounce:
  assumes "reachable s"
  shows "length (filter (\<lambda>(i, d, k). k = DebouncedSearch) (timers s)) \<le> 1 \<and>
         (\<forall>(i, d, k)\<in>set (timers s). k = DebouncedSearch \<longrightarrow> timeout s = Some i) \<and>
         (\<forall>(i, d, k)\<in>set (timers s). now s \<le> d)"
proof -
  have inv: "ctl_inv s" using assms by (rule reachable_ctl_inv)
  let ?F = "filter (\<lambda>(i, d, k). k = DebouncedSearch) (timers s)"
  have "distinct (map fst (timers s))"
    using inv by (simp add: ctl_inv_def strict_sorted_iff)
  then have dist: "distinct (map fst ?F)"
    by (simp add: distinct_map_filter)
  have "length ?F \<le> 1"
  proof (cases "timeout s")
    case None
    then have "?F = []"
      using inv by (fastforce simp: ctl_inv_def filter_empty_conv)
    then show ?thesis by simp
  next
    case (Some c)
    then have "\<forall>x\<in>set ?F. fst x = c"
      using inv by (fastforce simp: ctl_inv_def)
    with dist show ?thesis by (rule single_id_length)
  qed
  with inv show ?thesis
    by (auto simp: ctl_inv_def)
qed

theorem reachable_single_debounce_witness:
  "length (filter (\<lambda>(i, d, k). k = DebouncedSearch)
     (timers (dispatch (dispatch (init url_page) (100, Input ''ca'')) (200, Input ''cac'')))) \<le> 1"
proof -
  have "reachable (dispatch (dispatch (init url_page) (100, Input ''ca'')) (200, Input ''cac''))"
    by (intro reachable.step reachable.start)
  then show ?thesis
    using reachable_single_debounce by blast
qed

text \<open>C20. Without an input or a results container the controller is inert: no
  fetch, no listener, no timer, and whatever happens afterwards the page is left
  as it was and no search ever runs.\<close>

theorem inert_page_unchanged:
  assumes "input_el p = None \<or> results_el p = None"
  shows "results_html (run (init p) es) = results_el p \<and> searches (run (init p) es) = [] \<and>
         searchIndex (run (init p) es) = [] \<and> console (run (init p) es) = []"
proof -
  have i: "inert (init p)" "timers (init p) = []" "\<not> loading (init p)"
    using assms by (auto simp: init_def blank_def split: option.splits)
  then have "inert_frame (init p) (run (init p) es)"
    by (rule inert_run)
  moreover have "results_html (init p) = results_el p" "searches (init p) = []"
    "searchIndex (init p) = []" "console (init p) = []"
    using assms by (auto simp: init_def blank_def split: option.splits)
  ultimately show ?thesis
    by (simp add: inert_frame_def)
qed

theorem inert_page_unchanged_witness:
  "results_html (run (init bare_page) [(10, FetchDone (Json [intro_post])), (20, Input ''cache''), (900, Tick)]) = None"
proof -
  have h: "input_el bare_page = None \<or> results_el bare_page = None"
    by (simp add: bare_page_def)
  have "results_html (run (init bare_page) [(10, FetchDone (Json [intro_post])), (20, Input ''cache''),
      (900, Tick)]) = results_el bare_page"
    by (rule conjunct1 [OF inert_page_unchanged [OF h]])
  also have "results_el bare_page = None"
    by (simp add: bare_page_def)
  finally show ?thesis .
qed

text \<open>C21. A failed load (network error or a body that is not JSON) keeps the
  empty index, writes one line to the console and nothing to the page; every
  search pass afterwards shows ``No results found'' and raises nothing.\<close>

theorem load_failure_no_results:
  assumes "loading s" and "searchIndex s = []" and "results_html s = Some h"
    and "r = NetworkError \<or> r = NotJson"
  shows "searchIndex (handle (FetchDone r) s) = [] \<and>
         console (handle (FetchDone r) s) = console s @ [load_error_message] \<and>
         results_html (handle (FetchDone r) s) = Some h \<and>
         results_html (search_pass org q (handle (FetchDone r) s)) = Some no_results_html \<and>
         console (search_pass org q (handle (FetchDone r) s)) = console s @ [load_error_message]"
  using assms by (auto simp: search_pass_empty_index)

theorem load_failure_no_results_witness:
  "results_html (search_pass Typed ''cache'' (handle (FetchDone NetworkError) (init plain_page)))
     = Some no_results_html"
proof -
  have "loading (init plain_page)" "searchIndex (init plain_page) = []"
    "results_html (init plain_page) = Some []"
    by (simp_all add: init_def plain_page_def blank_def)
  then show ?thesis
    using load_failure_no_results [of "init plain_page" "[]" NetworkError Typed "''cache''"] by simp
qed

text \<open>C22. The URL search and the typed search are independent timers, and the
  URL search runs the parameter captured at \<open>init\<close>: on any page opened with a
  non-empty \<open>?q=\<close>, when the index has loaded and the user types \<open>v\<close> early
  enough that the debounced search fires before 500, the URL search runs after it
  and leaves the results for \<open>q\<close> in the container, while the input still shows
  \<open>v\<close>.\<close>

theorem url_search_overwrites_typed:
  assumes "input_el p = Some v0" and "results_el p = Some h" and "url_q p = Some q" and "q \<noteq> []"
    and "wf_index idx" and "t0 \<le> t" and "t + debounce_wait < url_delay" and "url_delay \<le> T"
  shows "searches (run (init p) [(t0, FetchDone (Json idx)), (t, Input v), (T, Tick)]) = [(Typed, js_trim v), (FromUrl, q)] \<and>
         input_value (run (init p) [(t0, FetchDone (Json idx)), (t, Input v), (T, Tick)]) = v \<and>
         (\<exists>rs out. performSearch idx q = Inr rs \<and> renderResults (Some h) rs q = Inr (Some out) \<and>
            results_html (run (init p) [(t0, FetchDone (Json idx)), (t, Input v), (T, Tick)]) = Some out)"
proof -
  let ?U = "(1::nat, url_delay, UrlSearch q)" and ?D = "(2::nat, t + debounce_wait, DebouncedSearch)"
  define s2 where "s2 = blank\<lparr>inert := False, loading := False, results_html := Some h, input_value := v,
      timers := [?U, ?D], next_id := 3, searchIndex := idx, now := t, timeout := Some 2\<rparr>"
  have i: "init p = blank\<lparr>inert := False, loading := True, results_html := Some h, input_value := q,
                       timers := [?U], next_id := 2\<rparr>"
    by (rule init_url [OF assms(1-4)])
  have "run (init p) [(t0, FetchDone (Json idx)), (t, Input v)] = s2"
    using assms(6,7) by (simp add: i s2_def dispatch_def run_timers_none_due debounced_input_def
        setTimeout_def clearTimeout_def blank_def max_def)
  then have r: "run (init p) [(t0, FetchDone (Json idx)), (t, Input v), (T, Tick)] = run_timers T s2"
    by (simp add: run_append [of _ "[(t0, FetchDone (Json idx)), (t, Input v)]" "[(T, Tick)]", simplified]
        dispatch_def)
  have n: "next_timer (timers s2) T = Some ?D"
    using assms(7,8) by (simp add: s2_def next_timer_def)
  let ?s3 = "run_task DebouncedSearch (s2\<lparr>timers := [?U], now := t + debounce_wait\<rparr>)"
  have "run_timers T s2 = run_timers T ?s3"
    using run_timers_next [OF n] by (simp add: s2_def max_def)
  also have "\<dots> = (run_task (UrlSearch q) (?s3\<lparr>timers := [], now := max (now ?s3) url_delay\<rparr>))
                    \<lparr>now := max (max (now ?s3) url_delay) T\<rparr>"
    using assms(8) by (intro run_timers_single_due) (simp_all add: s2_def)
  finally have r2: "run_timers T s2 = \<dots>" .
  let ?s4 = "?s3\<lparr>timers := [], now := max (now ?s3) url_delay\<rparr>"
  have w: "wf_index (searchIndex ?s4)" and hr: "\<exists>h'. results_html ?s4 = Some h'"
    using assms(5) by (auto simp: s2_def search_pass_def Let_def renderResults_def split: sum.splits if_splits)
  then obtain h' where h': "results_html ?s4 = Some h'" by blast
  obtain rs out where rs: "performSearch idx q = Inr rs" and ren: "renderResults (Some h') rs q = Inr (Some out)"
    and res: "results_html (search_pass FromUrl q ?s4) = Some out"
    using search_pass_ok [OF w h', of q FromUrl] by (auto simp: s2_def)
  have "renderResults (Some h) rs q = Inr (Some out)"
    using ren by (simp add: renderResults_def)
  then show ?thesis
    using r r2 rs res by (simp add: s2_def blank_def)
qed

theorem url_search_overwrites_typed_witness:
  "searches (run (init url_page) [(10, FetchDone (Json [intro_post, systems_post])), (100, Input ''systems''), (600, Tick)])
     = [(Typed, ''systems''), (FromUrl, ''cache'')] \<and>
   input_value (run (init url_page) [(10, FetchDone (Json [intro_post, systems_post])), (100, Input ''systems''), (600, Tick)])
     = ''systems''"
proof -
  have h: "input_el url_page = Some []" "results_el url_page = Some []" "url_q url_page = Some ''cache''"
    "''cache'' \<noteq> []" "wf_index [intro_post, systems_post]" "(10::nat) \<le> 100"
    "100 + debounce_wait < url_delay" "url_delay \<le> 600"
    by (simp_all add: url_page_def wf_index_def wf_post_def intro_post_def systems_post_def
        debounce_wait_def url_delay_def)
  have "js_trim ''systems'' = ''systems''" by code_simp
  with url_search_overwrites_typed [OF h, of "''systems''"] show ?thesis by simp
qed

text \<open>The host's event loop drains: advancing the clock to a time at which every
  pending timer is due runs them all, leaves no timer pending and the clock at
  that time.\<close>

lemma run_timers_drains:
  "\<forall>(i, d, k)\<in>set (timers s). d \<le> t \<Longrightarrow> timers (run_timers t s) = [] \<and> t \<le> now (run_timers t s)"
proof (induction "length (timers s)" arbitrary: s rule: less_induct)
  case less
  show ?case
  proof (cases "next_timer (timers s) t")
    case None
    have "timers s = []"
      using less.prems None by (cases "timers s") (auto simp: next_timer_None_iff)
    with None show ?thesis
      by (simp add: run_timers.simps [of t s])
  next
    case (Some x)
    obtain i d k where x: "x = (i, d, k)" by (cases x)
    define s' where "s' = run_task k (s\<lparr>timers := filter (\<lambda>(i', _, _). i' \<noteq> i) (timers s), now := max (now s) d\<rparr>)"
    have "(i, d, k) \<in> set (timers s)"
      using next_timer_Some [of "timers s" t i d k] Some x by simp
    then have len: "length (timers s') < length (timers s)"
      by (auto simp: s'_def intro!: length_filter_less)
    have pre: "\<forall>(i', d', k')\<in>set (timers s'). d' \<le> t"
      using less.prems by (auto simp: s'_def)
    have "timers (run_timers t s') = [] \<and> t \<le> now (run_timers t s')"
      using less.hyps len pre by blast
    moreover have "run_timers t s = run_timers t s'"
      using Some x by (simp add: run_timers.simps [of t s] s'_def)
    ultimately show ?thesis by simp
  qed
qed

text \<open>C36. The readiness check makes \<open>init\<close> see the whole page wherever the
  load reaches the script: the controller's state after the load is \<open>init\<close> of the
  page with every element parsed, those after the script tag included.\<close>

theorem search_script_any_point:
  "snd (dom (load_with_script parse_elem search_script k es (p, s))) = init (fst (fold parse_elem es (p, s)))"
  using when_ready_any_point [of parse_elem "\<lambda>(p, s). (p, init p)" k es "(p, s)"]
  by (simp add: search_script_when_ready split_beta)

text \<open>C38. The URL search tolerates an index that is still loading: when its
  timer fires before the fetch completes, it searches the empty index once,
  renders ``No results found'' without an error, and leaves nothing scheduled, so
  the results stay the same when the index arrives later.\<close>

theorem url_search_before_load:
  assumes "input_el p = Some v" and "results_el p = Some h" and "url_q p = Some q" and "q \<noteq> []"
    and "url_delay \<le> t"
  shows "loading (run_timers t (init p)) \<and>
         searches (run_timers t (init p)) = [(FromUrl, q)] \<and>
         results_html (run_timers t (init p)) = Some no_results_html \<and>
         console (run_timers t (init p)) = [] \<and> timers (run_timers t (init p)) = [] \<and>
         results_html (handle (FetchDone r) (run_timers t (init p))) = Some no_results_html \<and>
         timers (handle (FetchDone r) (run_timers t (init p))) = []"
proof -
  let ?s0 = "blank\<lparr>inert := False, loading := True, results_html := Some h, input_value := q\<rparr>"
  have i: "init p = snd (setTimeout (UrlSearch q) url_delay ?s0)"
    using assms(1-4) by (simp add: init_def)
  then have ts: "timers (init p) = [(1, url_delay, UrlSearch q)]"
    by (simp add: setTimeout_def blank_def)
  have "run_timers t (init p) =
      (run_task (UrlSearch q) ((init p)\<lparr>timers := [], now := max (now (init p)) url_delay\<rparr>))
        \<lparr>now := max (max (now (init p)) url_delay) t\<rparr>"
    using ts assms(5) by (rule run_timers_single_due)
  also have "\<dots> = (init p)\<lparr>timers := [], now := t, searches := [(FromUrl, q)],
                     results_html := Some no_results_html\<rparr>"
    using assms(5) by (simp add: i setTimeout_def blank_def search_pass_empty_index max_def)
  finally have r: "run_timers t (init p) = (init p)\<lparr>timers := [], now := t, searches := [(FromUrl, q)],
                     results_html := Some no_results_html\<rparr>" .
  have "loading (init p)" "console (init p) = []"
    using i by (simp_all add: setTimeout_def blank_def)
  then show ?thesis
    by (simp add: r split_beta)
qed

theorem url_search_before_load_witness:
  "results_html (handle (FetchDone (Json [intro_post])) (run_timers 500 (init url_page))) = Some no_results_html"
  using url_search_before_load [of url_page "[]" "[]" "''cache''" 500 "Json [intro_post]"]
  by (simp add: url_page_def url_delay_def)

end
