(* ===== verification/CodeCopy.thy ===== *)
theory CodeCopy
  imports Document
begin

text \<open>
  The copy buttons of \<open>src/assets/js/code-copy.js\<close>: \<open>addCopyButtons\<close> appends a
  button to every \<open>div.highlighter-rouge\<close> that has none, and a click copies the
  text of the block's \<open>code\<close> element to the clipboard, then shows
  \<open>Copied!\<close> (with the class \<open>copied\<close>) or \<open>Failed\<close> and restores \<open>Copy\<close>
  after 2000.  Each block keeps the list of its copy buttons (the DOM can hold
  several, and a button of the page's own markup has no click listener); the
  clipboard promise is taken to settle at the time of the click, with its outcome
  an input of the model; the reset callbacks sit in a timer queue.  The script
  itself runs \<open>addCopyButtons\<close> through the readiness idiom of \<open>Document\<close>.
\<close>

record button =
  label :: string
  copied :: bool
  listener :: bool

record block =
  code_text :: "string option"
  buttons :: "button list"
  relative :: bool

text \<open>What \<open>navigator.clipboard.writeText(text)\<close> does: its promise resolves,
  or rejects, or \<open>navigator.clipboard\<close> is undefined (a page not served in a
  secure context) and the call throws at once.\<close>

datatype clip_outcome = ClipOk | ClipFail | ClipMissing

datatype reset_task = ResetCopied nat | ResetFailed nat

record copy_state =
  blocks :: "block list"
  resets :: "(nat \<times> reset_task) list"
  clock :: nat
  clipboard :: "string list"
  errors :: "string list"

datatype copy_event = Click nat clip_outcome | Wait

definition copy_label :: string where
  "copy_label = ''Copy''"

definition reset_delay :: nat where
  "reset_delay = 2000"

subsection \<open>addCopyButtons\<close>

text \<open>One block of the \<open>forEach\<close>: skip a block that already has a button,
  otherwise make it \<open>position: relative\<close> and append a new button.\<close>

definition add_button :: "block \<Rightarrow> block" where
  "add_button b =
     (if buttons b \<noteq> [] then b
      else b\<lparr>relative := True,
             buttons := buttons b @ [\<lparr>label = copy_label, copied = False, listener = True\<rparr>]\<rparr>)"

definition addCopyButtons :: "block list \<Rightarrow> block list" where
  "addCopyButtons bs = map add_button bs"

subsection \<open>The click handler\<close>

text \<open>Update the (first) button of block \<open>i\<close>; blocks without a button have no
  handler.\<close>

definition update_button :: "nat \<Rightarrow> (button \<Rightarrow> button) \<Rightarrow> copy_state \<Rightarrow> copy_state" where
  "update_button i f s =
     (if i < length (blocks s) then
        (case buttons (blocks s ! i) of
           [] \<Rightarrow> s
         | b # bs \<Rightarrow> s\<lparr>blocks := (blocks s)[i := (blocks s ! i)\<lparr>buttons := f b # bs\<rparr>]\<rparr>)
      else s)"

text \<open>\<open>code ? code.textContent : ''\<close>.\<close>

definition block_text :: "block \<Rightarrow> string" where
  "block_text b = (case code_text b of None \<Rightarrow> [] | Some t \<Rightarrow> t)"

text \<open>The first copy button of block \<open>i\<close>; the listener of \<open>addCopyButtons\<close>
  exists only on a button it appended, which is then the block's only one.\<close>

definition first_button :: "copy_state \<Rightarrow> nat \<Rightarrow> button option" where
  "first_button s i =
     (if i < length (blocks s) then (case buttons (blocks s ! i) of [] \<Rightarrow> None | b # _ \<Rightarrow> Some b)
      else None)"

definition has_button :: "copy_state \<Rightarrow> nat \<Rightarrow> bool" where
  "has_button s i \<longleftrightarrow> (case first_button s i of None \<Rightarrow> False | Some b \<Rightarrow> listener b)"

text \<open>The error an exception thrown out of the listener leaves on the console.\<close>

definition uncaught_error :: string where
  "uncaught_error = ''Uncaught TypeError''"

text \<open>The click: \<open>writeText(text)\<close>, then the \<open>then\<close> or the \<open>catch\<close> branch,
  each scheduling its reset after 2000; without the Clipboard API the property
  access throws before any promise exists, and the exception leaves the listener.\<close>

fun click :: "nat \<Rightarrow> clip_outcome \<Rightarrow> copy_state \<Rightarrow> copy_state" where
  "click i ClipOk s =
     (if \<not> has_button s i then s
      else (update_button i (\<lambda>b. b\<lparr>label := ''Copied!'', copied := True\<rparr>) s)
             \<lparr>clipboard := clipboard s @ [block_text (blocks s ! i)],
              resets := resets s @ [(clock s + reset_delay, ResetCopied i)]\<rparr>)"
| "click i ClipFail s =
     (if \<not> has_button s i then s
      else (update_button i (\<lambda>b. b\<lparr>label := ''Failed''\<rparr>) s)
             \<lparr>errors := errors s @ [''Failed to copy:''],
              resets := resets s @ [(clock s + reset_delay, ResetFailed i)]\<rparr>)"
| "click i ClipMissing s =
     (if \<not> has_button s i then s else s\<lparr>errors := errors s @ [uncaught_error]\<rparr>)"

text \<open>The reset callbacks: after a success the label and the class are restored,
  after a failure only the label.\<close>

fun run_reset :: "reset_task \<Rightarrow> copy_state \<Rightarrow> copy_state" where
  "run_reset (ResetCopied i) s = update_button i (\<lambda>b. b\<lparr>label := copy_label, copied := False\<rparr>) s"
| "run_reset (ResetFailed i) s = update_button i (\<lambda>b. b\<lparr>label := copy_label\<rparr>) s"

text \<open>Time passes to \<open>t\<close>: the resets due by then run, earliest first (ties in
  scheduling order); the callbacks schedule nothing, so they run in one pass.\<close>

definition run_due :: "nat \<times> reset_task \<Rightarrow> copy_state \<Rightarrow> copy_state" where
  "run_due dk s = run_reset (snd dk) (s\<lparr>clock := max (clock s) (fst dk)\<rparr>)"

definition advance :: "nat \<Rightarrow> copy_state \<Rightarrow> copy_state" where
  "advance t s =
     (let due = sort_key fst (filter (\<lambda>(d, _). d \<le> t) (resets s));
          s1 = s\<lparr>resets := filter (\<lambda>(d, _). t < d) (resets s)\<rparr>;
          s2 = fold run_due due s1
      in s2\<lparr>clock := max (clock s2) t\<rparr>)"

fun copy_handle :: "copy_event \<Rightarrow> copy_state \<Rightarrow> copy_state" where
  "copy_handle (Click i r) s = click i r s"
| "copy_handle Wait s = s"

definition copy_run :: "copy_state \<Rightarrow> (nat \<times> copy_event) list \<Rightarrow> copy_state" where
  "copy_run s es = fold (\<lambda>(t, e) s. copy_handle e (advance t s)) es s"

text \<open>A page with one code block, after \<open>addCopyButtons\<close>.\<close>

definition one_block :: copy_state where
  "one_block = \<lparr>blocks = addCopyButtons [\<lparr>code_text = Some ''ls -l'', buttons = [], relative = False\<rparr>],
     resets = [], clock = 0, clipboard = [], errors = []\<rparr>"

subsection \<open>The script at page load\<close>

text \<open>Lines 47--52: \<open>addCopyButtons\<close> on the document's blocks, run at
  \<open>DOMContentLoaded\<close> when the document is still loading, at once otherwise.\<close>

definition add_all_buttons :: "copy_state \<Rightarrow> copy_state" where
  "add_all_buttons s = s\<lparr>blocks := addCopyButtons (blocks s)\<rparr>"

definition copy_script :: "copy_state document \<Rightarrow> copy_state document" where
  "copy_script doc = when_ready add_all_buttons doc"

text \<open>The parser appending a \<open>div.highlighter-rouge\<close> block to the page.\<close>

definition parse_block :: "block \<Rightarrow> copy_state \<Rightarrow> copy_state" where
  "parse_block b s = s\<lparr>blocks := blocks s @ [b]\<rparr>"

definition empty_page :: copy_state where
  "empty_page = \<lparr>blocks = [], resets = [], clock = 0, clipboard = [], errors = []\<rparr>"

subsection \<open>Reachable states\<close>

text \<open>The block a reset callback belongs to.\<close>

fun reset_block :: "reset_task \<Rightarrow> nat" where
  "reset_block (ResetCopied i) = i"
| "reset_block (ResetFailed i) = i"

text \<open>The markup of a page carries no click listeners.\<close>

definition no_listeners :: "block list \<Rightarrow> bool" where
  "no_listeners bs \<longleftrightarrow> list_all (\<lambda>b. list_all (\<lambda>x. \<not> listener x) (buttons b)) bs"

text \<open>The states of a page after \<open>addCopyButtons\<close> ran: then any clicks with
  any clipboard outcomes, and time passing.\<close>

inductive copy_reach :: "copy_state \<Rightarrow> bool" where
  loaded: "no_listeners bs \<Longrightarrow>
    copy_reach \<lparr>blocks = addCopyButtons bs, resets = [], clock = c, clipboard = cb, errors = er\<rparr>"
| step: "copy_reach s \<Longrightarrow> copy_reach (copy_handle e (advance t s))"

text \<open>A button that is not in its rest state has a reset pending that restores
  it: a pending \<open>ResetCopied\<close> for the class, some reset of its block for the
  label.\<close>

definition btn_settles :: "copy_state \<Rightarrow> nat \<Rightarrow> button \<Rightarrow> bool" where
  "btn_settles s i b \<longleftrightarrow>
     (copied b \<longrightarrow> (\<exists>d. (d, ResetCopied i) \<in> set (resets s))) \<and>
     (label b \<noteq> copy_label \<longrightarrow> (\<exists>dk\<in>set (resets s). reset_block (snd dk) = i))"

text \<open>The invariant: a listening button shows one of the three labels and settles,
  and every reset is due within 2000 of the clock.\<close>

definition copy_inv :: "copy_state \<Rightarrow> bool" where
  "copy_inv s \<longleftrightarrow>
     (\<forall>i b. first_button s i = Some b \<longrightarrow> listener b \<longrightarrow>
        label b \<in> {copy_label, ''Copied!'', ''Failed''} \<and> btn_settles s i b) \<and>
     (\<forall>dk\<in>set (resets s). fst dk \<le> clock s + reset_delay)"

subsection \<open>Lemmas\<close>

lemma add_button_idem [simp]: "add_button (add_button b) = add_button b"
  by (simp add: add_button_def)

lemma addCopyButtons_idem: "addCopyButtons (addCopyButtons bs) = addCopyButtons bs"
  by (simp add: addCopyButtons_def comp_def)

lemma length_buttons_add_button:
  "length (buttons b) \<le> 1 \<Longrightarrow> length (buttons (add_button b)) = 1"
  by (cases "buttons b") (auto simp: add_button_def)

lemma funpow_addCopyButtons: "(addCopyButtons ^^ Suc n) bs = addCopyButtons bs"
  by (induction n) (simp_all add: addCopyButtons_idem)

lemma update_button_Cons:
  assumes "i < length (blocks s)" and "buttons (blocks s ! i) = b # bs"
  shows "update_button i f s = s\<lparr>blocks := (blocks s)[i := (blocks s ! i)\<lparr>buttons := f b # bs\<rparr>]\<rparr>"
  using assms by (simp add: update_button_def)

lemma advance_nothing_due:
  "\<forall>(d, k)\<in>set (resets s). t < d \<Longrightarrow> advance t s = s\<lparr>clock := max (clock s) t\<rparr>"
proof -
  assume "\<forall>(d, k)\<in>set (resets s). t < d"
  then have "filter (\<lambda>(d, _). d \<le> t) (resets s) = []" "filter (\<lambda>(d, _). t < d) (resets s) = resets s"
    by (auto simp: filter_empty_conv filter_id_conv)
  then show ?thesis by (simp add: advance_def)
qed

lemma update_button_frame [simp]:
  "clock (update_button i f s) = clock s" "resets (update_button i f s) = resets s"
  "clipboard (update_button i f s) = clipboard s" "length (blocks (update_button i f s)) = length (blocks s)"
  by (simp_all add: update_button_def split: list.splits)

lemma run_reset_frame [simp]:
  "clock (run_reset k s) = clock s" "resets (run_reset k s) = resets s"
  "clipboard (run_reset k s) = clipboard s"
  by (cases k; simp)+

lemma advance_single_due:
  assumes "resets s = [(d, k)]" and "d \<le> t" and "clock s \<le> d"
  shows "advance t s = (run_reset k (s\<lparr>resets := [], clock := d\<rparr>))\<lparr>clock := t\<rparr>"
  using assms by (simp add: advance_def run_due_def max_def)

lemma first_button_update_button:
  "first_button (update_button i f s) j =
     (if j = i then map_option f (first_button s i) else first_button s j)"
proof (cases "j = i")
  case True
  then show ?thesis by (simp add: first_button_def update_button_def split: list.splits)
next
  case False
  then have "i \<noteq> j" by simp
  then show ?thesis by (auto simp: first_button_def update_button_def split: list.splits)
qed

lemma first_button_fields [simp]:
  "first_button (s\<lparr>clock := c\<rparr>) = first_button s"
  "first_button (s\<lparr>resets := r\<rparr>) = first_button s"
  "first_button (s\<lparr>clipboard := cb\<rparr>) = first_button s"
  "first_button (s\<lparr>errors := er\<rparr>) = first_button s"
  by (simp_all add: first_button_def fun_eq_iff)

lemma run_reset_button:
  assumes "first_button (run_reset k s) i = Some b'"
  shows "\<exists>b. first_button s i = Some b \<and> listener b' = listener b \<and>
           (copied b' \<longrightarrow> copied b \<and> k \<noteq> ResetCopied i) \<and>
           (label b' \<noteq> copy_label \<longrightarrow> label b' = label b \<and> reset_block k \<noteq> i)"
  using assms by (cases k) (auto simp: first_button_update_button split: if_splits)

lemma fold_resets_resets:
  "resets (fold run_due ks s) = resets s"
  by (induction ks arbitrary: s) (simp_all add: run_due_def)

lemma fold_resets_clock:
  "clock s \<le> clock (fold run_due ks s)"
proof (induction ks arbitrary: s)
  case Nil
  then show ?case by simp
next
  case (Cons dk ks)
  have "clock s \<le> clock (run_due dk s)"
    by (simp add: run_due_def)
  then show ?case
    using Cons.IH [of "run_due dk s"] by simp
qed

lemma fold_resets_button:
  assumes "first_button (fold run_due ks s) i = Some b'"
  shows "\<exists>b. first_button s i = Some b \<and> listener b' = listener b \<and>
           (copied b' \<longrightarrow> copied b \<and> (\<forall>dk\<in>set ks. snd dk \<noteq> ResetCopied i)) \<and>
           (label b' \<noteq> copy_label \<longrightarrow> label b' = label b \<and> (\<forall>dk\<in>set ks. reset_block (snd dk) \<noteq> i))"
  using assms
proof (induction ks arbitrary: s)
  case Nil
  then show ?case by simp
next
  case (Cons dk ks)
  let ?s = "run_due dk s"
  from Cons.prems have "first_button (fold run_due ks ?s) i = Some b'"
    by simp
  from Cons.IH [OF this] obtain b1 where b1: "first_button ?s i = Some b1"
    and ih: "listener b' = listener b1 \<and>
           (copied b' \<longrightarrow> copied b1 \<and> (\<forall>dk\<in>set ks. snd dk \<noteq> ResetCopied i)) \<and>
           (label b' \<noteq> copy_label \<longrightarrow> label b' = label b1 \<and> (\<forall>dk\<in>set ks. reset_block (snd dk) \<noteq> i))"
    by blast
  from run_reset_button [of "snd dk" "s\<lparr>clock := max (clock s) (fst dk)\<rparr>"] b1 obtain b where "first_button s i = Some b"
    and "listener b1 = listener b"
    and "copied b1 \<longrightarrow> copied b \<and> snd dk \<noteq> ResetCopied i"
    and "label b1 \<noteq> copy_label \<longrightarrow> label b1 = label b \<and> reset_block (snd dk) \<noteq> i"
    by (auto simp: run_due_def)
  with ih show ?case by auto
qed

lemma advance_resets: "resets (advance t s) = filter (\<lambda>(d, _). t < d) (resets s)"
  by (simp add: advance_def Let_def fold_resets_resets)

lemma advance_clock: "clock s \<le> clock (advance t s)" "t \<le> clock (advance t s)"
proof -
  let ?s1 = "s\<lparr>resets := filter (\<lambda>(d, _). t < d) (resets s)\<rparr>"
  let ?due = "sort_key fst (filter (\<lambda>(d, _). d \<le> t) (resets s))"
  have "clock s \<le> clock (fold run_due ?due ?s1)"
    using fold_resets_clock [of ?s1 ?due] by simp
  then show "clock s \<le> clock (advance t s)" "t \<le> clock (advance t s)"
    by (simp_all add: advance_def Let_def)
qed

lemma advance_button:
  assumes "first_button (advance t s) i = Some b'"
  shows "\<exists>b. first_button s i = Some b \<and> listener b' = listener b \<and>
           (copied b' \<longrightarrow> copied b \<and> (\<forall>d. (d, ResetCopied i) \<in> set (resets s) \<longrightarrow> t < d)) \<and>
           (label b' \<noteq> copy_label \<longrightarrow> label b' = label b \<and>
              (\<forall>dk\<in>set (resets s). reset_block (snd dk) = i \<longrightarrow> t < fst dk))"
proof -
  let ?s1 = "s\<lparr>resets := filter (\<lambda>(d, _). t < d) (resets s)\<rparr>"
  let ?due = "sort_key fst (filter (\<lambda>(d, _). d \<le> t) (resets s))"
  have "first_button (fold run_due ?due ?s1) i = Some b'"
    using assms by (simp add: advance_def Let_def)
  from fold_resets_button [OF this] obtain b where b: "first_button s i = Some b"
    and l: "listener b' = listener b"
    and c: "copied b' \<longrightarrow> copied b \<and> (\<forall>dk\<in>set ?due. snd dk \<noteq> ResetCopied i)"
    and t: "label b' \<noteq> copy_label \<longrightarrow> label b' = label b \<and> (\<forall>dk\<in>set ?due. reset_block (snd dk) \<noteq> i)"
    by auto
  have due: "dk \<in> set ?due \<longleftrightarrow> dk \<in> set (resets s) \<and> fst dk \<le> t" for dk
    by (auto simp: split_beta)
  show ?thesis
  proof (intro exI conjI impI allI ballI)
    show "first_button s i = Some b" "listener b' = listener b" by (fact b, fact l)
  next
    assume "copied b'"
    then show "copied b" using c by simp
  next
    fix d assume "copied b'" "(d, ResetCopied i) \<in> set (resets s)"
    then show "t < d" using c due [of "(d, ResetCopied i)"] by force
  next
    assume "label b' \<noteq> copy_label"
    then show "label b' = label b" using t by simp
  next
    fix dk assume "label b' \<noteq> copy_label" "dk \<in> set (resets s)" "reset_block (snd dk) = i"
    then show "t < fst dk" using t due [of dk] by force
  qed
qed

lemma btn_settles_mono:
  "btn_settles s i b \<Longrightarrow> set (resets s) \<subseteq> set (resets s') \<Longrightarrow> btn_settles s' i b"
  by (auto simp: btn_settles_def)

lemma copy_inv_advance: "copy_inv s \<Longrightarrow> copy_inv (advance t s)"
proof -
  assume inv: "copy_inv s"
  have btn: "label b' \<in> {copy_label, ''Copied!'', ''Failed''} \<and> btn_settles (advance t s) i b'"
    if fb: "first_button (advance t s) i = Some b'" and lb: "listener b'" for i b'
  proof -
    from advance_button [OF fb] obtain b where b: "first_button s i = Some b"
      and l: "listener b' = listener b"
      and c: "copied b' \<longrightarrow> copied b \<and> (\<forall>d. (d, ResetCopied i) \<in> set (resets s) \<longrightarrow> t < d)"
      and t: "label b' \<noteq> copy_label \<longrightarrow> label b' = label b \<and>
                (\<forall>dk\<in>set (resets s). reset_block (snd dk) = i \<longrightarrow> t < fst dk)"
      by blast
    have lab: "label b \<in> {copy_label, ''Copied!'', ''Failed''}" and st: "btn_settles s i b"
      using inv b lb l by (auto simp: copy_inv_def)
    have "label b' \<in> {copy_label, ''Copied!'', ''Failed''}"
      using lab t by auto
    moreover have "btn_settles (advance t s) i b'"
      unfolding btn_settles_def advance_resets
    proof (intro conjI impI)
      assume "copied b'"
      then obtain d where "(d, ResetCopied i) \<in> set (resets s)" "t < d"
        using c st by (auto simp: btn_settles_def)
      then show "\<exists>d. (d, ResetCopied i) \<in> set (filter (\<lambda>(d, _). t < d) (resets s))" by auto
    next
      assume "label b' \<noteq> copy_label"
      then obtain dk where "dk \<in> set (resets s)" "reset_block (snd dk) = i" "t < fst dk"
        using t st by (auto simp: btn_settles_def)
      then have "dk \<in> set (filter (\<lambda>(d, _). t < d) (resets s))"
        by (auto simp: split_beta)
      then show "\<exists>dk\<in>set (filter (\<lambda>(d, _). t < d) (resets s)). reset_block (snd dk) = i"
        using \<open>reset_block (snd dk) = i\<close> by blast
    qed
    ultimately show ?thesis ..
  qed
  moreover have "\<forall>dk\<in>set (resets (advance t s)). fst dk \<le> clock (advance t s) + reset_delay"
    using inv advance_clock(1) [of s t] by (auto simp: copy_inv_def advance_resets)
  ultimately show ?thesis
    by (auto simp: copy_inv_def)
qed

lemma copy_inv_update:
  assumes inv: "copy_inv s"
    and fb: "\<And>j. first_button s' j = (if j = i then map_option f (first_button s i) else first_button s j)"
    and rs: "set (resets s) \<subseteq> set (resets s')" and ck: "clock s' = clock s"
    and new: "\<forall>dk\<in>set (resets s'). fst dk \<le> clock s + reset_delay"
    and fl: "\<And>b. listener (f b) = listener b"
    and fi: "\<And>b. first_button s i = Some b \<Longrightarrow> listener b \<Longrightarrow>
               label (f b) \<in> {copy_label, ''Copied!'', ''Failed''} \<and> btn_settles s' i (f b)"
  shows "copy_inv s'"
proof -
  have "label b' \<in> {copy_label, ''Copied!'', ''Failed''} \<and> btn_settles s' j b'"
    if fb': "first_button s' j = Some b'" and lb: "listener b'" for j b'
  proof (cases "j = i")
    case True
    then obtain b where b: "first_button s i = Some b" and b': "b' = f b"
      using fb' fb [of j] by (cases "first_button s i") auto
    have "listener b" using fl [of b] lb b' by simp
    with fi [OF b] show ?thesis using b' True by simp
  next
    case False
    then have "first_button s j = Some b'" using fb' fb [of j] by simp
    then show ?thesis
      using inv lb rs by (auto simp: copy_inv_def intro: btn_settles_mono)
  qed
  then show ?thesis
    using new ck by (simp add: copy_inv_def)
qed

lemma copy_inv_click: "copy_inv s \<Longrightarrow> copy_inv (click i r s)"
proof (cases "has_button s i")
  case False
  then show "copy_inv s \<Longrightarrow> copy_inv (click i r s)" by (cases r) simp_all
next
  case True
  assume inv: "copy_inv s"
  then have bound: "\<forall>dk\<in>set (resets s). fst dk \<le> clock s + reset_delay"
    by (simp add: copy_inv_def)
  show ?thesis
  proof (cases r)
    case ClipOk
    let ?f = "\<lambda>b. b\<lparr>label := ''Copied!'', copied := True\<rparr>"
    show ?thesis
    proof (rule copy_inv_update [OF inv, of _ i ?f])
      show "first_button (click i r s) j = (if j = i then map_option ?f (first_button s i) else first_button s j)" for j
        using True ClipOk by (simp add: first_button_update_button)
      show "label (?f b) \<in> {copy_label, ''Copied!'', ''Failed''} \<and> btn_settles (click i r s) i (?f b)" for b
        using True ClipOk by (force simp: btn_settles_def)
    qed (use True ClipOk bound in auto)
  next
    case ClipFail
    let ?f = "\<lambda>b. b\<lparr>label := ''Failed''\<rparr>"
    show ?thesis
    proof (rule copy_inv_update [OF inv, of _ i ?f])
      show "first_button (click i r s) j = (if j = i then map_option ?f (first_button s i) else first_button s j)" for j
        using True ClipFail by (simp add: first_button_update_button)
      show "label (?f b) \<in> {copy_label, ''Copied!'', ''Failed''} \<and> btn_settles (click i r s) i (?f b)"
        if "first_button s i = Some b" "listener b" for b
      proof -
        have "btn_settles s i b" using inv that by (simp add: copy_inv_def)
        then show ?thesis
          using True ClipFail by (force simp: btn_settles_def copy_label_def)
      qed
    qed (use True ClipFail bound in auto)
  next
    case ClipMissing
    then show ?thesis
      using inv True by (simp add: copy_inv_def btn_settles_def first_button_def)
  qed
qed

lemma copy_inv_loaded:
  assumes "no_listeners bs"
  shows "copy_inv \<lparr>blocks = addCopyButtons bs, resets = [], clock = c, clipboard = cb, errors = er\<rparr>"
proof -
  have "label b = copy_label \<and> \<not> copied b"
    if "i < length bs" "(case buttons (add_button (bs ! i)) of [] \<Rightarrow> None | b # _ \<Rightarrow> Some b) = Some b"
       "listener b" for i b
  proof -
    have "bs ! i \<in> set bs" using that(1) by simp
    then have "\<forall>x\<in>set (buttons (bs ! i)). \<not> listener x"
      using assms by (simp add: no_listeners_def list_all_iff)
    then show ?thesis
      using that(2,3) by (auto simp: add_button_def split: if_splits list.splits)
  qed
  then show ?thesis
    by (auto simp: copy_inv_def first_button_def addCopyButtons_def btn_settles_def)
qed

lemma copy_reach_inv: "copy_reach s \<Longrightarrow> copy_inv s"
proof (induction rule: copy_reach.induct)
  case (loaded bs c cb er)
  then show ?case by (rule copy_inv_loaded)
next
  case (step s e t)
  then show ?case
    by (cases e) (simp_all add: copy_inv_click copy_inv_advance)
qed

lemma fold_parse_block: "fold parse_block bs d = d\<lparr>blocks := blocks d @ bs\<rparr>"
  by (induction bs arbitrary: d) (simp_all add: parse_block_def)

lemma copy_reach_one_block: "copy_reach one_block"
  unfolding one_block_def by (rule copy_reach.loaded) (simp add: no_listeners_def)

lemma copy_run_Cons: "copy_run s (e # es) = copy_run (copy_handle (snd e) (advance (fst e) s)) es"
  by (simp add: copy_run_def split_beta)

lemma copy_run_Nil: "copy_run s [] = s"
  by (simp add: copy_run_def)

lemma click_ok_fields:
  assumes "first_button s i = Some b" and "listener b"
  shows "first_button (click i ClipOk s) j =
           (if j = i then Some (b\<lparr>label := ''Copied!'', copied := True\<rparr>) else first_button s j)"
    "resets (click i ClipOk s) = resets s @ [(clock s + reset_delay, ResetCopied i)]"
    "clock (click i ClipOk s) = clock s"
  using assms by (simp_all add: has_button_def first_button_update_button)

lemma click_fail_fields:
  assumes "first_button s i = Some b" and "listener b"
  shows "first_button (click i ClipFail s) j =
           (if j = i then Some (b\<lparr>label := ''Failed''\<rparr>) else first_button s j)"
    "resets (click i ClipFail s) = resets s @ [(clock s + reset_delay, ResetFailed i)]"
    "clock (click i ClipFail s) = clock s"
  using assms by (simp_all add: has_button_def first_button_update_button)

lemma advance_none_fields:
  assumes "\<forall>dk\<in>set (resets s). t < fst dk"
  shows "first_button (advance t s) = first_button s" "resets (advance t s) = resets s"
    "clock (advance t s) = max (clock s) t"
  using advance_nothing_due [of s t] assms by (auto simp: split_beta)

lemma advance_one_fields:
  assumes "resets s = (d, k) # rest" and "d \<le> t" and "\<forall>dk\<in>set rest. t < fst dk" and "clock s \<le> d"
  shows "first_button (advance t s) = first_button (run_reset k s)" "resets (advance t s) = rest"
    "clock (advance t s) = t"
proof -
  have "filter (\<lambda>(d', _). d' \<le> t) (resets s) = [(d, k)]" "filter (\<lambda>(d', _). t < d') (resets s) = rest"
    using assms(1-3) by (auto simp: filter_empty_conv filter_id_conv split_beta)
  then have a: "advance t s = (run_reset k (s\<lparr>resets := rest, clock := d\<rparr>))\<lparr>clock := t\<rparr>"
    using assms(2,4) by (simp add: advance_def run_due_def max_def)
  have "first_button (run_reset k (s\<lparr>resets := rest, clock := d\<rparr>)) = first_button (run_reset k s)"
    by (cases k) (simp_all add: fun_eq_iff first_button_update_button)
  then show "first_button (advance t s) = first_button (run_reset k s)" "resets (advance t s) = rest"
    "clock (advance t s) = t"
    by (simp_all add: a)
qed

lemma one_block_start:
  "first_button one_block 0 = Some \<lparr>label = copy_label, copied = False, listener = True\<rparr>"
  "listener \<lparr>label = copy_label, copied = False, listener = True\<rparr>" "resets one_block = []" "clock one_block \<le> 0"
  by (simp_all add: one_block_def addCopyButtons_def add_button_def first_button_def)

text \<open>One click at time \<open>t\<close> when no reset is due by then.\<close>

lemma step_click_ok:
  assumes "first_button s i = Some b" and "listener b" and "\<forall>dk\<in>set (resets s). t < fst dk"
    and "clock s \<le> t"
  shows "first_button (copy_handle (Click i ClipOk) (advance t s)) i = Some (b\<lparr>label := ''Copied!'', copied := True\<rparr>)"
    "resets (copy_handle (Click i ClipOk) (advance t s)) = resets s @ [(t + reset_delay, ResetCopied i)]"
    "clock (copy_handle (Click i ClipOk) (advance t s)) = t"
  using advance_none_fields [OF assms(3)] click_ok_fields [of "advance t s" i b] assms(1,2,4)
  by (simp_all add: max_def)

lemma step_click_fail:
  assumes "first_button s i = Some b" and "listener b" and "\<forall>dk\<in>set (resets s). t < fst dk"
    and "clock s \<le> t"
  shows "first_button (copy_handle (Click i ClipFail) (advance t s)) i = Some (b\<lparr>label := ''Failed''\<rparr>)"
    "resets (copy_handle (Click i ClipFail) (advance t s)) = resets s @ [(t + reset_delay, ResetFailed i)]"
    "clock (copy_handle (Click i ClipFail) (advance t s)) = t"
  using advance_none_fields [OF assms(3)] click_fail_fields [of "advance t s" i b] assms(1,2,4)
  by (simp_all add: max_def)

subsection \<open>Properties\<close>

text \<open>C25. The guard of \<open>addCopyButtons\<close> makes it idempotent: however often it
  runs, a block that had at most one copy button has exactly one.\<close>

theorem addCopyButtons_one_button:
  assumes "\<forall>b\<in>set bs. length (buttons b) \<le> 1"
  shows "\<forall>b\<in>set ((addCopyButtons ^^ Suc n) bs). length (buttons b) = 1"
  using assms unfolding funpow_addCopyButtons addCopyButtons_def
  by (auto simp: length_buttons_add_button)

theorem addCopyButtons_one_button_witness:
  "map (\<lambda>b. length (buttons b)) ((addCopyButtons ^^ 3) [\<lparr>code_text = None, buttons = [], relative = False\<rparr>]) = [1]"
proof -
  have "\<forall>b\<in>set [\<lparr>code_text = None, buttons = [], relative = False\<rparr>]. length (buttons b) \<le> 1"
    by simp
  from addCopyButtons_one_button [OF this, of 2] show ?thesis
    by (simp add: numeral_3_eq_3 addCopyButtons_def add_button_def)
qed

text \<open>C26. A successful click copies the block's code text, shows
  \<open>Copied!\<close> with the class \<open>copied\<close>, and 2000 later the button reads
  \<open>Copy\<close> again without the class.\<close>

theorem copy_success_then_reset:
  assumes "i < length (blocks s)" and "buttons (blocks s ! i) = b # bs" and "listener b"
    and "resets s = []" and "clock s \<le> t"
  shows "buttons (blocks (copy_run s [(t, Click i ClipOk)]) ! i) = b\<lparr>label := ''Copied!'', copied := True\<rparr> # bs \<and>
         buttons (blocks (copy_run s [(t, Click i ClipOk), (t + reset_delay, Wait)]) ! i)
           = b\<lparr>label := copy_label, copied := False\<rparr> # bs \<and>
         clipboard (copy_run s [(t, Click i ClipOk), (t + reset_delay, Wait)])
           = clipboard s @ [block_text (blocks s ! i)]"
proof -
  let ?b1 = "b\<lparr>label := ''Copied!'', copied := True\<rparr>"
  let ?T = "t + reset_delay"
  define s1 where "s1 = s\<lparr>clock := t, blocks := (blocks s)[i := (blocks s ! i)\<lparr>buttons := ?b1 # bs\<rparr>],
      clipboard := clipboard s @ [block_text (blocks s ! i)], resets := [(?T, ResetCopied i)]\<rparr>"
  have hb: "has_button (s\<lparr>clock := t\<rparr>) i"
    using assms(1,2,3) by (simp add: has_button_def first_button_def)
  have a0: "advance t s = s\<lparr>clock := t\<rparr>"
    using assms(4,5) by (simp add: advance_nothing_due max_def)
  have r1: "copy_run s [(t, Click i ClipOk)] = s1"
    using hb assms(1,2,4) by (simp add: copy_run_def a0 update_button_Cons s1_def)
  have r2: "copy_run s [(t, Click i ClipOk), (?T, Wait)] = advance ?T s1"
    using r1 by (simp add: copy_run_def)
  have "advance ?T s1 = (run_reset (ResetCopied i) (s1\<lparr>resets := [], clock := ?T\<rparr>))\<lparr>clock := ?T\<rparr>"
    by (rule advance_single_due) (simp_all add: s1_def)
  also have "\<dots> = s1\<lparr>resets := [], clock := ?T,
      blocks := (blocks s)[i := (blocks s ! i)\<lparr>buttons := b\<lparr>label := copy_label, copied := False\<rparr> # bs\<rparr>]\<rparr>"
    using assms(1) by (simp add: update_button_Cons s1_def)
  finally show ?thesis
    using r1 r2 assms(1) by (simp add: s1_def)
qed

theorem copy_success_then_reset_witness:
  "label (hd (buttons (blocks (copy_run one_block [(0, Click 0 ClipOk), (2000, Wait)]) ! 0))) = ''Copy''"
proof -
  have "0 < length (blocks one_block)"
    "buttons (blocks one_block ! 0) = [\<lparr>label = copy_label, copied = False, listener = True\<rparr>]"
    "listener \<lparr>label = copy_label, copied = False, listener = True\<rparr>"
    "resets one_block = []" "clock one_block \<le> 0"
    by (simp_all add: one_block_def addCopyButtons_def add_button_def)
  from copy_success_then_reset [OF this] show ?thesis
    by (simp add: reset_delay_def copy_label_def)
qed

text \<open>C27. The reset timers are never cancelled: after two successful copies at
  \<open>t1 < t2\<close> less than 2000 apart, the first reset restores \<open>Copy\<close> at
  \<open>t1 + 2000\<close>, less than 2000 after the second copy, and the second reset is
  still pending.\<close>

theorem copy_early_reset:
  assumes "first_button s i = Some b" and "listener b" and "resets s = []" and "clock s \<le> t1"
    and "t1 < t2" and "t2 < t1 + reset_delay"
  shows "first_button (copy_run s [(t1, Click i ClipOk), (t2, Click i ClipOk), (t1 + reset_delay, Wait)]) i
           = Some (b\<lparr>label := copy_label, copied := False\<rparr>) \<and>
         resets (copy_run s [(t1, Click i ClipOk), (t2, Click i ClipOk), (t1 + reset_delay, Wait)])
           = [(t2 + reset_delay, ResetCopied i)]"
proof -
  define s1 where "s1 = copy_handle (Click i ClipOk) (advance t1 s)"
  define s2 where "s2 = copy_handle (Click i ClipOk) (advance t2 s1)"
  have f1: "first_button s1 i = Some (b\<lparr>label := ''Copied!'', copied := True\<rparr>)"
    and r1: "resets s1 = [(t1 + reset_delay, ResetCopied i)]" and c1: "clock s1 = t1"
    using step_click_ok [OF assms(1,2), of t1] assms(3,4) by (simp_all add: s1_def)
  have f2: "first_button s2 i = Some (b\<lparr>label := ''Copied!'', copied := True\<rparr>)"
    and r2: "resets s2 = [(t1 + reset_delay, ResetCopied i), (t2 + reset_delay, ResetCopied i)]"
    and c2: "clock s2 = t2"
    using step_click_ok [OF f1 _, of t2] assms(2,5,6) r1 c1 by (simp_all add: s2_def)
  have e: "copy_run s [(t1, Click i ClipOk), (t2, Click i ClipOk), (t1 + reset_delay, Wait)]
          = advance (t1 + reset_delay) s2"
    by (simp only: copy_run_Cons copy_run_Nil copy_handle.simps(2) fst_conv snd_conv
        s1_def [symmetric] s2_def [symmetric])
  show ?thesis
    unfolding e using advance_one_fields [OF r2] c2 f2 assms(5,6)
    by (simp add: first_button_update_button)
qed

theorem copy_early_reset_witness:
  "first_button (copy_run one_block [(0, Click 0 ClipOk), (1500, Click 0 ClipOk), (2000, Wait)]) 0
     = Some \<lparr>label = ''Copy'', copied = False, listener = True\<rparr>"
  using copy_early_reset [OF one_block_start, of 1500] by (simp add: reset_delay_def copy_label_def)

text \<open>C28. A failure after a success keeps the class \<open>copied\<close>: the failure
  branch sets the label only, so a failed copy within 2000 of a successful one
  shows \<open>Failed\<close> in the copied style.\<close>

theorem copy_failed_keeps_copied:
  assumes "first_button s i = Some b" and "listener b" and "resets s = []" and "clock s \<le> t1"
    and "t1 \<le> t2" and "t2 < t1 + reset_delay"
  shows "first_button (copy_run s [(t1, Click i ClipOk), (t2, Click i ClipFail)]) i
           = Some (b\<lparr>label := ''Failed'', copied := True\<rparr>)"
proof -
  define s1 where "s1 = copy_handle (Click i ClipOk) (advance t1 s)"
  have f1: "first_button s1 i = Some (b\<lparr>label := ''Copied!'', copied := True\<rparr>)"
    and r1: "resets s1 = [(t1 + reset_delay, ResetCopied i)]" and c1: "clock s1 = t1"
    using step_click_ok [OF assms(1,2), of t1] assms(3,4) by (simp_all add: s1_def)
  have "copy_run s [(t1, Click i ClipOk), (t2, Click i ClipFail)] = copy_handle (Click i ClipFail) (advance t2 s1)"
    by (simp only: copy_run_Cons copy_run_Nil copy_handle.simps(2) fst_conv snd_conv s1_def [symmetric])
  then show ?thesis
    using step_click_fail [OF f1 _, of t2] assms(2,5,6) r1 c1 by simp
qed

theorem copy_failed_keeps_copied_witness:
  "first_button (copy_run one_block [(0, Click 0 ClipOk), (1000, Click 0 ClipFail)]) 0
     = Some \<lparr>label = ''Failed'', copied = True, listener = True\<rparr>"
  using copy_failed_keeps_copied [OF one_block_start, of 1000] by (simp add: reset_delay_def copy_label_def)

text \<open>C32. The readiness check makes the script's effect independent of where the
  page load reaches it: whether it runs while blocks are still being parsed, after
  parsing, or after \<open>load\<close>, every block of the finished page, those parsed after
  the script included, goes through \<open>addCopyButtons\<close> exactly once.\<close>

theorem copy_script_any_point:
  "blocks (dom (load_with_script parse_block copy_script k bs d)) = addCopyButtons (blocks d @ bs)"
proof -
  have "copy_script = when_ready add_all_buttons"
    by (simp add: fun_eq_iff copy_script_def)
  then have "dom (load_with_script parse_block copy_script k bs d) = add_all_buttons (fold parse_block bs d)"
    using when_ready_any_point [of parse_block add_all_buttons k bs d] by simp
  then show ?thesis
    by (simp add: fold_parse_block add_all_buttons_def)
qed

text \<open>C33. In every reachable state, a button with the click listener reads
  \<open>Copy\<close>, \<open>Copied!\<close> or \<open>Failed\<close>.\<close>

theorem copy_reach_labels:
  assumes "copy_reach s" and "first_button s i = Some b" and "listener b"
  shows "label b \<in> {''Copy'', ''Copied!'', ''Failed''}"
  using copy_reach_inv [OF assms(1)] assms(2,3) by (auto simp: copy_inv_def copy_label_def)

theorem copy_reach_labels_witness:
  "label (the (first_button (copy_handle (Click 0 ClipOk) (advance 0 one_block)) 0))
     \<in> {''Copy'', ''Copied!'', ''Failed''}"
proof -
  let ?s = "copy_handle (Click 0 ClipOk) (advance 0 one_block)"
  have r: "copy_reach ?s" by (rule copy_reach.step [OF copy_reach_one_block])
  have f: "first_button ?s 0 = Some \<lparr>label = ''Copied!'', copied = True, listener = True\<rparr>"
    by code_simp
  from copy_reach_labels [OF r f] f show ?thesis by simp
qed

text \<open>C34. Every button settles: from any reachable state, once the clock passes
  2000 beyond the last click, no reset is pending and every button with the
  listener reads \<open>Copy\<close> without the class \<open>copied\<close>.\<close>

theorem copy_buttons_settle:
  assumes "copy_reach s" and "clock s + reset_delay \<le> t"
  shows "resets (advance t s) = [] \<and>
         (\<forall>i b. first_button (advance t s) i = Some b \<longrightarrow> listener b \<longrightarrow>
            label b = copy_label \<and> \<not> copied b)"
proof -
  have inv: "copy_inv s" by (rule copy_reach_inv [OF assms(1)])
  then have due: "fst dk \<le> t" if "dk \<in> set (resets s)" for dk
    using that assms(2) by (force simp: copy_inv_def)
  have "\<not> t < fst dk" if "dk \<in> set (resets s)" for dk
    using due [OF that] by simp
  then have "resets (advance t s) = []"
    by (auto simp: advance_resets filter_empty_conv)
  moreover have "label b' = copy_label \<and> \<not> copied b'"
    if fb: "first_button (advance t s) i = Some b'" and lb: "listener b'" for i b'
  proof -
    from advance_button [OF fb] obtain b where b: "first_button s i = Some b"
      and l: "listener b' = listener b"
      and c: "copied b' \<longrightarrow> copied b \<and> (\<forall>d. (d, ResetCopied i) \<in> set (resets s) \<longrightarrow> t < d)"
      and t: "label b' \<noteq> copy_label \<longrightarrow> label b' = label b \<and>
                (\<forall>dk\<in>set (resets s). reset_block (snd dk) = i \<longrightarrow> t < fst dk)"
      by blast
    have st: "btn_settles s i b" using inv b lb l by (simp add: copy_inv_def)
    have "\<not> copied b'"
    proof
      assume "copied b'"
      with c st obtain d where "(d, ResetCopied i) \<in> set (resets s)" "t < d"
        by (auto simp: btn_settles_def)
      then show False using due [of "(d, ResetCopied i)"] by simp
    qed
    moreover have "label b' = copy_label"
    proof (rule ccontr)
      assume "label b' \<noteq> copy_label"
      with t st obtain dk where "dk \<in> set (resets s)" "t < fst dk"
        by (auto simp: btn_settles_def)
      then show False using due [of dk] by simp
    qed
    ultimately show ?thesis by simp
  qed
  ultimately show ?thesis by blast
qed

theorem copy_buttons_settle_witness:
  "resets (advance 2000 (copy_handle (Click 0 ClipOk) (advance 0 one_block))) = [] \<and>
   label (the (first_button (advance 2000 (copy_handle (Click 0 ClipOk) (advance 0 one_block))) 0)) = ''Copy''"
proof -
  let ?s = "copy_handle (Click 0 ClipOk) (advance 0 one_block)"
  have r: "copy_reach ?s" by (rule copy_reach.step [OF copy_reach_one_block])
  have c: "clock ?s + reset_delay \<le> 2000" by code_simp
  have f: "first_button (advance 2000 ?s) 0 = Some \<lparr>label = ''Copy'', copied = False, listener = True\<rparr>"
    by code_simp
  from copy_buttons_settle [OF r c] f show ?thesis by (simp add: copy_label_def)
qed

text \<open>C35. A failure followed by a success within 2000 leaves the button reading
  \<open>Copy\<close> in the \<open>copied\<close> style when the failure's reset runs: that reset
  restores the label only, and the class stays until the success's own reset.\<close>

theorem copy_fail_then_success_mixed:
  assumes "first_button s i = Some b" and "listener b" and "resets s = []" and "clock s \<le> t1"
    and "t1 < t2" and "t2 < t1 + reset_delay"
  shows "first_button (copy_run s [(t1, Click i ClipFail), (t2, Click i ClipOk), (t1 + reset_delay, Wait)]) i
           = Some (b\<lparr>label := copy_label, copied := True\<rparr>)"
proof -
  define s1 where "s1 = copy_handle (Click i ClipFail) (advance t1 s)"
  define s2 where "s2 = copy_handle (Click i ClipOk) (advance t2 s1)"
  have f1: "first_button s1 i = Some (b\<lparr>label := ''Failed''\<rparr>)"
    and r1: "resets s1 = [(t1 + reset_delay, ResetFailed i)]" and c1: "clock s1 = t1"
    using step_click_fail [OF assms(1,2), of t1] assms(3,4) by (simp_all add: s1_def)
  have f2: "first_button s2 i = Some (b\<lparr>label := ''Copied!'', copied := True\<rparr>)"
    and r2: "resets s2 = [(t1 + reset_delay, ResetFailed i), (t2 + reset_delay, ResetCopied i)]"
    and c2: "clock s2 = t2"
    using step_click_ok [OF f1 _, of t2] assms(2,5,6) r1 c1 by (simp_all add: s2_def)
  have e: "copy_run s [(t1, Click i ClipFail), (t2, Click i ClipOk), (t1 + reset_delay, Wait)]
          = advance (t1 + reset_delay) s2"
    by (simp only: copy_run_Cons copy_run_Nil copy_handle.simps(2) fst_conv snd_conv
        s1_def [symmetric] s2_def [symmetric])
  show ?thesis
    unfolding e using advance_one_fields [OF r2] c2 f2 assms(5,6)
    by (simp add: first_button_update_button)
qed

theorem copy_fail_then_success_mixed_witness:
  "first_button (copy_run one_block [(0, Click 0 ClipFail), (1000, Click 0 ClipOk), (2000, Wait)]) 0
     = Some \<lparr>label = ''Copy'', copied = True, listener = True\<rparr>"
  using copy_fail_then_success_mixed [OF one_block_start, of 1000] by (simp add: reset_delay_def copy_label_def)



end
