(* ===== verification/Spec2Isabelle.thy ===== *)
theory Spec2Isabelle
  imports Prelude Document Index Scorer Json Highlight Render Controller CodeCopy
begin

text \<open>
  \<^bold>\<open>Site search of khjzzm.github.io, verified.\<close>

  The repository ships two browser scripts.  \<open>src/assets/js/search.js\<close> is an
  in-page full-text search over \<open>/search.json\<close>; \<open>src/assets/js/code-copy.js\<close>
  adds copy buttons to code blocks.  This development models both, one theory per
  part, in the order the parts depend on each other:

  \<^item> \<open>Prelude\<close>: the JavaScript error value (\<open>TypeError\<close>), the result type
    \<open>js_error + 'a\<close>, and the ECMAScript built-ins the script calls, on their ASCII
    behaviour: \<open>toLowerCase\<close> (\<open>js_lower\<close>), \<open>trim\<close> (\<open>js_trim\<close>),
    \<open>split(/\s+/)\<close> (\<open>split_ws\<close>, with its termination measure), \<open>includes\<close>
    (\<open>js_includes\<close>, proved equal to \<open>sublist\<close>), \<open>join\<close>, and an exception-aware
    \<open>map\<close> (\<open>map_js\<close>).  A character is a UTF-16 code unit of Latin-1
    (U+0000--U+00FF, Isabelle's 8-bit \<open>char\<close>): \<open>toLowerCase\<close> maps A--Z and
    U+00C0--U+00DE (but U+00D7) down, \<open>\s\<close> and \<open>trim\<close> include U+00A0.  In
    this range the canonicalisation of the regular-expression flag \<open>i\<close>
    (\<open>toUpperCase\<close>, kept when it leaves one code unit \<open>\<ge>\<close> 128 or gives two)
    identifies exactly the characters with the same \<open>toLowerCase\<close>, which is how
    \<open>Highlight\<close> compares.
  \<^item> \<open>Document\<close>: the page load as the scripts see it (elements parsed while
    \<open>readyState\<close> is \<open>loading\<close>, end of parsing, \<open>DOMContentLoaded\<close>
    firing once, window \<open>load\<close>), generic in the page content, and the
    readiness idiom both scripts end with (\<open>when_ready\<close>: search.js lines
    132--136, code-copy.js lines 48--52); \<open>load_with_script\<close> runs a script after
    any number of load steps.
  \<^item> \<open>Index\<close>: a post of \<open>search.json\<close> as a record whose every field is optional
    (JSON may omit any), the outcome of \<open>fetch\<close>/\<open>response.json()\<close>, and
    \<open>loadSearchIndex\<close> (lines 8--15).
  \<^item> \<open>Scorer\<close>: \<open>performSearch\<close> (lines 17--51) as written: the length guard, the
    lower-cased whitespace split, the per-term loop (\<open>terms_score\<close>: +10 title,
    +5 joined tags, +1 content), the \<open>TypeError\<close> of \<open>post.title.toLowerCase()\<close>
    on a post without a title or content, the spread \<open>{...post, score}\<close> as the
    record extension \<open>scored\<close>, the filter, \<open>Array.prototype.sort\<close> with the
    comparator \<open>b.score - a.score\<close> (\<open>js_sort\<close>, a stable insertion sort driven by
    the comparator, as ECMAScript 2019 requires stability) and \<open>slice(0, 20)\<close>.
  \<^item> \<open>Json\<close>: the value \<open>response.json()\<close> stores, as a JSON datatype, and
    \<open>performSearch\<close> over it with JavaScript's dynamic reads (\<open>.map\<close> only on
    arrays, \<open>.toLowerCase\<close> only on strings, \<open>post.tags || []\<close> by
    truthiness, tag values through \<open>Array.prototype.join\<close>), with the abstraction
    \<open>abs_post\<close> of well-typed entries to the records of \<open>Index\<close>.
  \<^item> \<open>Highlight\<close>: \<open>escapeRegex\<close>, the global case-insensitive replacement by
    \<open><mark>$1</mark>\<close> as a left-to-right scan (\<open>mark_all\<close>), and
    \<open>highlightText\<close>'s sequential per-term passes (lines 81--94); and, written
    from the ECMAScript Pattern grammar rather than from the code, the literal
    reading of a pattern (\<open>regex_literal\<close>, with its own class
    \<open>syntax_character\<close>) against which \<open>escapeRegex\<close> is checked.
  \<^item> \<open>Render\<close>: \<open>renderResults\<close> (lines 53--79) with the template literal
    reproduced piece by piece (line breaks and indentation included), no escaping,
    \<open>undefined\<close> for absent fields.
  \<^item> \<open>Controller\<close>: \<open>init\<close>, \<open>debounce\<close>, the input listener, the URL-parameter
    timer and the asynchronous load (lines 96--130) over an explicit event loop: a
    state record with the module variables, the DOM values, the timer queue (ids,
    due times, callbacks), the clock and the console; \<open>setTimeout\<close>,
    \<open>clearTimeout\<close>, \<open>run_timers\<close> (earliest due first, ties by scheduling
    order; terminating because callbacks never schedule timers), \<open>handle\<close> for
    the external events (typing, fetch completion, a clock tick), \<open>dispatch\<close>
    and \<open>run\<close> over timed event lists, and the inductive set \<open>reachable\<close> of
    states.  The field \<open>searches\<close> only observes which search passes ran.
    \<open>search_script\<close> is the bootstrap of lines 132--136 over a page whose
    \<open>#search-input\<close> and \<open>#search-results\<close> the parser adds
    (\<open>parse_elem\<close>).
  \<^item> \<open>CodeCopy\<close>: \<open>code-copy.js\<close> independently of the search: the blocks with
    their lists of copy buttons, \<open>addCopyButtons\<close> with its guard, the click
    handler (the clipboard promise settles at the click, its outcome an input:
    resolved, rejected, or no Clipboard API at all, when the call throws; only a
    button appended by the script has the listener), the 2000 reset timers in a
    queue advanced by \<open>advance\<close>, the bootstrap \<open>copy_script\<close> (lines 47--52),
    and the inductive set \<open>copy_reach\<close> of states after the buttons were added.

  How they interact: \<open>init\<close> starts the load and schedules callbacks; each
  callback is one \<open>search_pass\<close>, which calls \<open>performSearch\<close> on the current
  index and hands its result to \<open>renderResults\<close>, which calls \<open>highlightText\<close>.

  What is proved.  Scorer: results are at most 20, positive and in non-increasing
  score order (C1); the sort is stable (C2) and any stable sort meeting the
  comparator's contract gives the same list (C3, refinement of the engine's sort);
  short queries return nothing (C4); each result's score is the per-term sum (C5)
  and repeated terms count twice (C6); exceptions occur exactly for ill-formed
  posts (C7); the case of the query does not matter (C9); a query with leading
  white space scores every post at least 16, so the filter drops nothing and the
  result is the top 20 of the whole index (C10);
  no qualifying post is dropped below the cap (C29); a score is at most 16 per
  term (C30); reordering the index changes neither the errors nor the scores shown,
  nor, below the cap, the results (C37, over multisets).
  Json: over any value \<open>response.json()\<close> can store, a search throws exactly for
  a query of 2 or more characters on a non-array or on an array with an entry
  lacking a string title or content or with truthy non-array tags; an empty array
  never throws (C8); a payload that parses but is not an array is stored without a
  log line and makes every later search throw (C15).  On well-typed entries the
  JSON-level search refines to the record-level one, results and errors alike
  (lemma \<open>performSearch_json_refines\<close>).
  Highlight: a pattern reads as the literal \<open>s\<close> exactly when it is
  \<open>escapeRegex s\<close>, so line 93 escapes the syntax characters and nothing else
  (C11); one-word highlighting only adds markup (C13); for any text containing the
  first term, a second term \<open>mark\<close> breaks the inserted tags (C14); a text without matches is
  left unchanged (C31).  Render: tag labels reach the markup verbatim (C16); the anchor carries the
  URL and the highlighted title unescaped, and net of highlighting gives back the
  title for a one-word query and a title without \<open><\<close> (C17).  Controller: a burst of
  keystrokes runs exactly one search, for the last value (C18); in every
  reachable state at most one debounced search is pending and nothing is overdue
  (C19, by rule induction over \<open>reachable\<close>); an inert page never changes (C20);
  a failed load shows "No results found" and raises nothing (C21); on any page
  with a query in its URL, a query typed and debounced before the 500 of the URL
  search is overwritten by it, in the field and in the results (C22); wherever the script tag sits, \<open>init\<close> sees the whole page (C36); a URL
  search that fires before the index has loaded shows "No results found", raises
  nothing and is not repeated when the index arrives (C38).  Across components (this theory): a
  search pass over a well-formed index renders the results of exactly its own
  query and raises nothing (C23), and a typed (trimmed) query only returns posts
  that a non-empty term of it matches (C24), unlike the URL path of C10; end to
  end, after a successful load of a well-formed index a typed query of at least 2
  characters whose quiet window expires shows an anchor to every post that scores
  for it, below the cap (C39: \<open>loadSearchIndex\<close>,
  \<open>debounce\<close>, \<open>performSearch\<close> and \<open>renderResults\<close> composed).
  Copy buttons: \<open>addCopyButtons\<close> is idempotent, one button per block (C25); a
  successful copy shows \<open>Copied!\<close> and resets after 2000 (C26); without the
  Clipboard API a click changes nothing the user sees and only logs an uncaught
  error (C12); for any listening
  button and any click times, resets are never cancelled, so a second copy within
  2000 of the first is reset early (C27), and a failure after a success keeps the
  \<open>copied\<close> class (C28); wherever the script tag sits, every block of
  the finished page, even one parsed after the script, gets its button (C32).  By
  rule induction over \<open>copy_reach\<close> with the invariant \<open>copy_inv\<close> (every
  button off its rest state has a reset pending that restores it, and every reset
  is due within 2000): a listening button only reads \<open>Copy\<close>, \<open>Copied!\<close> or
  \<open>Failed\<close> (C33), and 2000 after any reachable state every button is back to
  \<open>Copy\<close> without the class (C34); a failure followed within 2000 by a
  success shows \<open>Copy\<close> in the \<open>copied\<close> style once the failure's reset
  runs (C35).

  Bounds and fuel.  No fuel is used: every loop is a terminating recursion
  (\<open>split_ws_aux\<close>, \<open>mark_all\<close>, \<open>strip_marks\<close> by the length of the
  remaining input, \<open>run_timers\<close> by the number of pending timers; the copy
  buttons' \<open>advance\<close> is a fold over the due resets, a page load a fold over
  its finite list of steps).  Scores are
  \<open>nat\<close>: a JavaScript number is exact up to 2^53 and a score is at most 16 per
  query term.  Times are \<open>nat\<close> milliseconds; the constants 300 and 500 are
  \<open>debounce_wait\<close> and \<open>url_delay\<close>.

  Not modelled.  The clipboard API itself (its outcome is an input) and the delay
  before its promise settles; the error object that \<open>console.error\<close> prints
  after its message (the console holds the message only); the button's
  \<open>className\<close> and \<open>aria-label\<close>, which nothing reads; the DOM beyond the values the scripts read and write;
  code units above U+00FF (the Unicode case mapping, including mappings to two
  units, and the Unicode space separators of \<open>\s\<close>): a HOL \<open>char\<close> has
  eight bits, so \<open>toLowerCase\<close> and \<open>trim\<close> are exact on Latin-1 text only,
  which is why the ECMAScript built-ins are partly modelled; fractional JSON numbers
  (\<open>Json\<close> has integers, and \<open>int_string\<close> prints all digits, which is
  \<open>Number.prototype.toString\<close> below 10^21; larger numbers, printed in
  exponent form and rounded by \<open>JSON.parse\<close>, are outside the model); the controller over non-array indexes (it runs on the
  record model, which \<open>Json\<close> shows exact for well-typed payloads); the markup parser (the text a reader sees is
  approximated by removing \<open><mark>\<close> tags); the browser's parser beyond adding
  the elements the scripts look up, in document order (\<open>doc_step\<close> and
  \<open>page_load\<close> are host semantics, not code of the repository).
\<close>

subsection \<open>Properties across components\<close>

text \<open>C23. A search pass over a well-formed index, with the results container
  present, raises nothing and leaves in the container exactly the rendering of the
  results of its own query: query and display always correspond within a pass.\<close>

theorem search_pass_consistent:
  assumes "wf_index (searchIndex s)" and "results_html s = Some h"
  shows "\<exists>rs out. performSearch (searchIndex s) q = Inr rs \<and> renderResults (Some h) rs q = Inr (Some out) \<and>
           results_html (search_pass org q s) = Some out \<and> console (search_pass org q s) = console s"
  using assms by (rule search_pass_ok)

theorem search_pass_consistent_witness:
  "\<exists>out. results_html (search_pass Typed ''cache''
      (handle (FetchDone (Json [intro_post])) (init plain_page))) = Some out"
proof -
  let ?s = "handle (FetchDone (Json [intro_post])) (init plain_page)"
  have "wf_index (searchIndex ?s)" "results_html ?s = Some []"
    by (simp_all add: init_def plain_page_def blank_def wf_index_def wf_post_def intro_post_def)
  then show ?thesis
    using search_pass_consistent [of ?s "[]" "''cache''" Typed] by blast
qed

text \<open>C24. The typed search runs on the trimmed input, so its terms are never
  empty: every post it returns contains a non-empty term of the query in its
  lower-cased title, tags or content.\<close>

theorem typed_search_results_match:
  assumes "performSearch idx (js_trim v) = Inr rs" and "r \<in> set rs"
  shows "\<exists>t\<in>set (query_terms (js_trim v)). \<exists>tt c. t \<noteq> [] \<and> title r = Some tt \<and> content r = Some c \<and>
           (js_includes (js_lower tt) t \<or> js_includes (js_lower (tags_text r)) t \<or> js_includes (js_lower c) t)"
proof -
  obtain p where "p \<in> set idx" and sp: "score_post (query_terms (js_trim v)) p = Inr r" and pos: "0 < score r"
    using performSearch_result_post [OF assms] by blast
  then obtain tt c where tc: "title p = Some tt" "content p = Some c"
    and r: "r = \<lparr>title = title p, content = content p, tags = tags p, url = url p, date = date p,
         score = sum_list (map (term_points (js_lower tt) (js_lower (tags_text p)) (js_lower c))
                                (query_terms (js_trim v)))\<rparr>"
    by (auto simp: score_post_Inr_iff)
  let ?F = "term_points (js_lower tt) (js_lower (tags_text p)) (js_lower c)"
  have "0 < sum_list (map ?F (query_terms (js_trim v)))"
    using pos r by simp
  then obtain t where t: "t \<in> set (query_terms (js_trim v))" and tp: "0 < ?F t"
    using sum_list_pos_ex by blast
  have "js_trim v \<noteq> []"
    using assms by (auto simp: performSearch_def)
  then have "t \<noteq> []"
    using t split_ws_trim_no_empty by (auto simp: query_terms_def)
  moreover have "tags_text r = tags_text p"
    using r by (simp add: tags_text_def)
  ultimately show ?thesis
    using t tp tc r by (auto simp: term_points_def split: if_splits)
qed

theorem typed_search_results_match_witness:
  "\<exists>t\<in>set (query_terms (js_trim '' cache '')). t \<noteq> [] \<and> js_includes ''a cache stores...'' t"
proof -
  have h: "performSearch [intro_post] (js_trim '' cache '') = Inr [intro_result]"
    by code_simp
  have "title intro_result = Some ''Intro to Caching''" "content intro_result = Some ''A cache stores...''"
    by (simp_all add: intro_result_def)
  then have "\<exists>t\<in>set (query_terms (js_trim '' cache '')). t \<noteq> [] \<and>
      (js_includes (js_lower ''Intro to Caching'') t \<or> js_includes (js_lower (tags_text intro_result)) t \<or>
       js_includes (js_lower ''A cache stores...'') t)"
    using typed_search_results_match [OF h, of intro_result] by auto
  then show ?thesis
    by code_simp
qed

text \<open>C39. End to end: on a live page still loading its index with no timer
  pending, after a well-formed index (every post has a title and a content) has
  loaded, typing a value whose trimmed query has at least 2 characters and waiting
  out the 300 quiet window shows, as an anchor to its URL in the results
  container, every post of the index that scores for the query, as long as the
  search returns fewer than 20 results.  (With a post lacking a title the search
  throws and nothing is shown: C7.)\<close>

theorem typed_search_after_load:
  assumes "\<not> inert s" and "loading s" and "timers s = []" and "results_html s = Some h" and "now s \<le> t"
    and "wf_index idx" and "p \<in> set idx" and "url p = Some u"
    and "score_post (query_terms (js_trim v)) p = Inr r" and "0 < score r" and "2 \<le> length (js_trim v)"
    and "length (projr (performSearch idx (js_trim v))) < 20"
  shows "\<exists>out ht. results_html (run s [(t, FetchDone (Json idx)), (t, Input v), (t + debounce_wait, Tick)]) = Some out \<and>
           sublist (title_anchor u ht) out"
proof -
  let ?q = "js_trim v" and ?s = "s\<lparr>searchIndex := idx\<rparr>"
  obtain rs out where rs: "performSearch idx ?q = Inr rs" and ren: "renderResults (Some h) rs ?q = Inr (Some out)"
    and res: "results_html (search_pass Typed ?q ?s) = Some out"
    using search_pass_ok [of ?s h ?q Typed] assms(4,6) by auto
  have "r \<in> set rs"
  proof -
    obtain ps where ps: "map_js (score_post (query_terms ?q)) idx = Inr ps" and rk: "rs = rank ps"
      using performSearch_Inr_rank [OF rs assms(11)] by blast
    have "r \<in> set ps" using ps assms(7,9) by (force simp: map_js_Inr_iff)
    then show ?thesis using rank_mem assms(10,12) rs rk by simp
  qed
  then obtain a where a: "article_html r ?q = Inr a" and a_out: "sublist a out"
    using renderResults_article [OF ren] by blast
  obtain ht hc where "a = article_template (js_string_of (url r)) ht (js_string_of (date r)) (tags_html r) hc"
    using article_html_Inr [OF a] by blast
  moreover have "url r = Some u" using assms(8,9) by (auto simp: score_post_Inr_iff)
  ultimately have "sublist (title_anchor u ht) a" by (simp add: anchor_in_template js_string_of_def)
  then have "sublist (title_anchor u ht) out" using a_out by (meson sublist_order.order.trans)
  moreover have "results_html (run s [(t, FetchDone (Json idx)), (t, Input v), (t + debounce_wait, Tick)]) = Some out"
    using load_type_wait [OF assms(1,2,3,5)] res by simp
  ultimately show ?thesis by blast
qed

theorem typed_search_after_load_witness:
  "\<exists>out ht. results_html (run (init plain_page) [(0, FetchDone (Json [intro_post])), (0, Input ''cache''), (300, Tick)])
     = Some out \<and> sublist (title_anchor ''/p1'' ht) out"
proof -
  have s: "\<not> inert (init plain_page)" "loading (init plain_page)" "timers (init plain_page) = []"
    "results_html (init plain_page) = Some []" "now (init plain_page) \<le> 0"
    by (simp_all add: init_def plain_page_def blank_def)
  have i: "wf_index [intro_post]" "intro_post \<in> set [intro_post]" "url intro_post = Some ''/p1''"
    by (simp_all add: wf_index_def wf_post_def intro_post_def)
  have q: "score_post (query_terms (js_trim ''cache'')) intro_post = Inr intro_result" "0 < score intro_result"
    "2 \<le> length (js_trim ''cache'')" "length (projr (performSearch [intro_post] (js_trim ''cache''))) < 20"
    by code_simp+
  from typed_search_after_load [OF s i q] show ?thesis
    by (simp add: debounce_wait_def)
qed

end
